theory Spec2Isabelle
  imports Main "HOL-Library.AList" "HOL-Library.Sublist" "HOL-Library.Multiset"
begin

section \<open>Python strings\<close>

text \<open>
  A Python \<open>str\<close> is modelled as a \<open>string\<close>; a \<open>char\<close> stands for a code point
  below 256. \<open>isspace\<close> lists the code points below 256 for which \<open>str.isspace\<close>
  holds, \<open>lower_char\<close> is \<open>str.lower\<close> on one such code point.
\<close>

definition isspace :: "char \<Rightarrow> bool" where
  "isspace c = (of_char c \<in> {9, 10, 11, 12, 13, 28, 29, 30, 31, 32, 133, 160 :: nat})"

definition strip :: "string \<Rightarrow> string" where
  "strip s = rev (dropWhile isspace (rev (dropWhile isspace s)))"

definition lower_char :: "char \<Rightarrow> char" where
  "lower_char c =
     (let n = of_char c :: nat
      in if (65 \<le> n \<and> n \<le> 90) \<or> (192 \<le> n \<and> n \<le> 222 \<and> n \<noteq> 215)
         then char_of (n + 32) else c)"

definition lower :: "string \<Rightarrow> string" where
  "lower s = map lower_char s"

text \<open>\<open>s.split(",")\<close>: the pieces between commas; the empty string gives one empty piece.\<close>

fun split_comma :: "string \<Rightarrow> string list" where
  "split_comma [] = [[]]"
| "split_comma (c # cs) =
     (if c = CHR '','' then [] # split_comma cs
      else (case split_comma cs of
              [] \<Rightarrow> [[c]]
            | w # ws \<Rightarrow> (c # w) # ws))"

text \<open>The format specification \<open>{s:<n}\<close>: pad with spaces on the right up to width \<open>n\<close>.\<close>

definition ljust :: "nat \<Rightarrow> string \<Rightarrow> string" where
  "ljust n s = s @ replicate (n - length s) CHR '' ''"

section \<open>Data\<close>

datatype error = CalledProcessError | JSONDecodeError | KeyError | EOFError | SystemExit

text \<open>One object of the JSON array printed by \<open>pip list --format=json\<close>: its keys with
  their (string) values, as \<open>json.loads\<close> returns it.\<close>

type_synonym pkg_obj = "(string \<times> string) list"

text \<open>One dependency object and one entry of the array printed by \<open>pipdeptree --json\<close>.
  The key \<open>dependencies\<close> of an entry may be absent (\<open>pkg.get("dependencies", [])\<close>).\<close>

record dep =
  package_name :: string

record tree_entry =
  package :: string
  dependencies :: "dep list option"

text \<open>The value stored for a package by \<open>get_installed_packages\<close> of
  \<open>python_package_cleaner.py\<close>; \<open>classify_packages\<close> reads the location with
  \<open>data.get("location", "")\<close>.\<close>

record pkg_data =
  version :: string
  location :: "string option"

text \<open>The value stored for a package by \<open>classify_packages\<close>.\<close>

record class_entry =
  c_version :: string
  used_by :: string
  system :: bool

text \<open>A Python \<open>dict\<close> is an association list in insertion order; \<open>d[k] = v\<close> is
  \<open>AList.update k v d\<close> (the value is replaced in place when the key is there, the pair is
  appended otherwise), \<open>d[k]\<close> is \<open>map_of d k\<close> with \<open>KeyError\<close> for \<open>None\<close>.\<close>

type_synonym ('k, 'v) dict = "('k \<times> 'v) list"

definition subscript :: "('k, 'v) dict \<Rightarrow> 'k \<Rightarrow> error + 'v" where
  "subscript d k = (case map_of d k of None \<Rightarrow> Inl KeyError | Some v \<Rightarrow> Inr v)"

section \<open>The required set and the classification\<close>

definition get_dependencies :: "tree_entry \<Rightarrow> dep list" where
  "get_dependencies pkg = (case dependencies pkg of None \<Rightarrow> [] | Some ds \<Rightarrow> ds)"

text \<open>Lines 56 to 59 of \<open>python_package_cleaner.py\<close> and 35 to 38 of \<open>main.py\<close>.\<close>

definition required_packages :: "tree_entry list \<Rightarrow> string set" where
  "required_packages tree =
     fold (\<lambda>pkg req. fold (\<lambda>dep r. insert (package_name dep) r) (get_dependencies pkg) req)
       tree {}"

definition system_dirs :: "string list" where
  "system_dirs = [''/Library/'', ''/System/'', ''/Applications/Xcode.app/'']"

definition skip_packages :: "string set" where
  "skip_packages = {''pip'', ''setuptools'', ''wheel'', ''pipdeptree''}"

definition is_system_of :: "string \<Rightarrow> pkg_data \<Rightarrow> bool" where
  "is_system_of pkg data =
     (let pkg_path = (case location data of None \<Rightarrow> [] | Some l \<Rightarrow> l)
      in list_ex (\<lambda>sd. prefix sd pkg_path) system_dirs \<or> pkg \<in> skip_packages)"

definition classify_entry :: "string set \<Rightarrow> string \<Rightarrow> pkg_data \<Rightarrow> class_entry" where
  "classify_entry required pkg data =
     (let is_system = is_system_of pkg data;
          used = (if is_system then ''system (do not remove)''
                  else if pkg \<notin> required then ''application''
                  else ''required by another package'')
      in \<lparr>c_version = version data, used_by = used, system = is_system\<rparr>)"

text \<open>Lines 64 to 74 of \<open>python_package_cleaner.py\<close>: the loop that fills \<open>classified\<close>.\<close>

definition classified_of :: "string set \<Rightarrow> (string, pkg_data) dict \<Rightarrow> (string, class_entry) dict" where
  "classified_of required installed_packages =
     fold (\<lambda>(pkg, data) classified. AList.update pkg (classify_entry required pkg data) classified)
       installed_packages []"

text \<open>Line 40 of \<open>main.py\<close>: the installed names that are not required, in the order of
  the installed mapping.\<close>

definition orphans_of :: "string set \<Rightarrow> (string, string) dict \<Rightarrow> string list" where
  "orphans_of required installed_packages =
     filter (\<lambda>pkg. pkg \<notin> required) (map fst installed_packages)"

section \<open>Console and subprocesses\<close>

text \<open>
  The commands the two scripts run. \<open>argv\<close> gives the argument list passed to
  \<open>subprocess.run\<close>; the interpreter is \<open>sys.executable\<close> in
  \<open>python_package_cleaner.py\<close> and the literal \<open>python3\<close> in \<open>main.py\<close>.
\<close>

datatype cmd =
    PipdeptreeVersion
  | PipInstallPipdeptree
  | PipListVerbose
  | PipList
  | PipdeptreeJson
  | PipUninstall string

fun argv :: "string \<Rightarrow> cmd \<Rightarrow> string list" where
  "argv exe PipdeptreeVersion = [exe, ''-m'', ''pipdeptree'', ''--version'']"
| "argv exe PipInstallPipdeptree = [exe, ''-m'', ''pip'', ''install'', ''pipdeptree'']"
| "argv exe PipListVerbose = [exe, ''-m'', ''pip'', ''list'', ''--format=json'', ''--verbose'']"
| "argv exe PipList = [exe, ''-m'', ''pip'', ''list'', ''--format=json'']"
| "argv exe PipdeptreeJson = [exe, ''-m'', ''pipdeptree'', ''--json'']"
| "argv exe (PipUninstall pkg_name) = [exe, ''-m'', ''pip'', ''uninstall'', pkg_name, ''-y'']"

text \<open>What a run does that can be observed: lines printed, prompts of \<open>input\<close>, and
  subprocesses started, in order.\<close>

datatype event = Print string | Prompt string | Run cmd

text \<open>The state of a run: the lines still to be read from the console and the events so
  far.\<close>

record io =
  stdin :: "string list"
  trace :: "event list"

text \<open>The environment: the exit status of a subprocess (it may depend on everything that
  happened before), and the standard output of the two queries after \<open>json.loads\<close>
  (\<open>None\<close> when it is not JSON).\<close>

record world =
  exit_status :: "event list \<Rightarrow> cmd \<Rightarrow> int"
  list_stdout :: "pkg_obj list option"
  tree_stdout :: "tree_entry list option"

definition py_print :: "string \<Rightarrow> io \<Rightarrow> io" where
  "py_print line s = s\<lparr>trace := trace s @ [Print line]\<rparr>"

text \<open>\<open>input(prompt)\<close>: writes the prompt, returns the next line, raises \<open>EOFError\<close> when
  there is none.\<close>

definition py_input :: "string \<Rightarrow> io \<Rightarrow> (error + string) \<times> io" where
  "py_input prompt s =
     (case stdin s of
        [] \<Rightarrow> (Inl EOFError, s\<lparr>trace := trace s @ [Prompt prompt]\<rparr>)
      | line # rest \<Rightarrow> (Inr line, s\<lparr>stdin := rest, trace := trace s @ [Prompt prompt]\<rparr>))"

text \<open>\<open>subprocess.run(argv, check=check)\<close>: with \<open>check\<close> a non-zero exit status raises
  \<open>CalledProcessError\<close>; otherwise the completed process (its exit status) is returned.\<close>

definition subprocess_run :: "bool \<Rightarrow> cmd \<Rightarrow> world \<Rightarrow> io \<Rightarrow> (error + int) \<times> io" where
  "subprocess_run check c w s =
     (let returncode = exit_status w (trace s) c;
          s' = s\<lparr>trace := trace s @ [Run c]\<rparr>
      in if check \<and> returncode \<noteq> 0 then (Inl CalledProcessError, s') else (Inr returncode, s'))"

section \<open>python_package_cleaner.py: queries\<close>

definition ensure_pipdeptree :: "world \<Rightarrow> io \<Rightarrow> (error + unit) \<times> io" where
  "ensure_pipdeptree w s =
     (case subprocess_run True PipdeptreeVersion w s of
        (Inr _, s1) \<Rightarrow> (Inr (), s1)
      | (Inl e, s1) \<Rightarrow>
          if e = CalledProcessError then
            (let s2 = py_print ''pipdeptree not found. Installing...'' s1
             in case subprocess_run True PipInstallPipdeptree w s2 of
                  (Inl e', s3) \<Rightarrow> (Inl e', s3)
                | (Inr _, s3) \<Rightarrow> (Inr (), py_print ''pipdeptree installed successfully.'' s3))
          else (Inl e, s1))"

text \<open>The dictionary comprehension of \<open>get_installed_packages\<close> (lines 36 to 42):
  \<open>pkg["name"]\<close> and \<open>pkg["version"]\<close> raise \<open>KeyError\<close> when the key is absent,
  \<open>pkg.get("Location", "")\<close> does not.\<close>

fun installed_from :: "pkg_obj list \<Rightarrow> (string, pkg_data) dict \<Rightarrow> error + (string, pkg_data) dict" where
  "installed_from [] acc = Inr acc"
| "installed_from (pkg # packages) acc =
     (case subscript pkg ''name'' of
        Inl e \<Rightarrow> Inl e
      | Inr name \<Rightarrow>
          (case subscript pkg ''version'' of
             Inl e \<Rightarrow> Inl e
           | Inr v \<Rightarrow>
               installed_from packages
                 (AList.update name
                    \<lparr>version = v,
                     location = Some (case map_of pkg ''Location'' of None \<Rightarrow> [] | Some l \<Rightarrow> l)\<rparr>
                    acc)))"

definition get_installed_packages :: "world \<Rightarrow> io \<Rightarrow> (error + (string, pkg_data) dict) \<times> io" where
  "get_installed_packages w s =
     (case subprocess_run True PipListVerbose w s of
        (Inl e, s1) \<Rightarrow> (Inl e, s1)
      | (Inr _, s1) \<Rightarrow>
          (case list_stdout w of
             None \<Rightarrow> (Inl JSONDecodeError, s1)
           | Some packages \<Rightarrow> (installed_from packages [], s1)))"

definition get_dependency_tree :: "world \<Rightarrow> io \<Rightarrow> (error + tree_entry list) \<times> io" where
  "get_dependency_tree w s =
     (case subprocess_run True PipdeptreeJson w s of
        (Inl e, s1) \<Rightarrow> (Inl e, s1)
      | (Inr _, s1) \<Rightarrow>
          (case tree_stdout w of
             None \<Rightarrow> (Inl JSONDecodeError, s1)
           | Some tree \<Rightarrow> (Inr tree, s1)))"

definition classify_packages ::
  "world \<Rightarrow> (string, pkg_data) dict \<Rightarrow> io \<Rightarrow> (error + (string, class_entry) dict) \<times> io" where
  "classify_packages w installed_packages s =
     (case get_dependency_tree w s of
        (Inl e, s1) \<Rightarrow> (Inl e, s1)
      | (Inr tree, s1) \<Rightarrow> (Inr (classified_of (required_packages tree) installed_packages), s1))"

definition display_packages :: "(string, class_entry) dict \<Rightarrow> io \<Rightarrow> io" where
  "display_packages classified s =
     fold (\<lambda>(pkg, info). py_print
             (ljust 20 pkg @ '' '' @ ljust 10 (c_version info) @ '' '' @ used_by info))
       classified
       (py_print (replicate 50 CHR ''-'')
          (py_print (ljust 20 ''Package'' @ '' '' @ ljust 10 ''Version'' @ '' '' @ ''Used By'') s))"

section \<open>The uninstall dialogue\<close>

text \<open>\<open>uninstall_package\<close>: \<open>subprocess.run\<close> without \<open>check\<close>, the completed process is
  dropped.\<close>

definition uninstall_package :: "world \<Rightarrow> string \<Rightarrow> io \<Rightarrow> (error + unit) \<times> io" where
  "uninstall_package w pkg_name s =
     (case subprocess_run False (PipUninstall pkg_name) w
             (py_print (CHR 0x0A # ''Uninstalling '' @ pkg_name @ ''...'') s) of
        (Inl e, s1) \<Rightarrow> (Inl e, s1)
      | (Inr _, s1) \<Rightarrow> (Inr (), s1))"

text \<open>The loop \<open>for pkg in ...: confirm = input(...).strip().lower(); if confirm == "y":
  uninstall_package(pkg)\<close> (lines 109 to 112 and 126 to 129; 74 to 77 and 91 to 94 of
  \<open>main.py\<close>). \<open>ver\<close> is the lookup of the version written into the prompt:
  \<open>classified[pkg]['version']\<close> or \<open>installed_packages[pkg]\<close>.\<close>

fun confirm_loop ::
  "world \<Rightarrow> (string \<Rightarrow> error + string) \<Rightarrow> string list \<Rightarrow> io \<Rightarrow> (error + unit) \<times> io" where
  "confirm_loop w ver [] s = (Inr (), s)"
| "confirm_loop w ver (pkg # pkgs) s =
     (case ver pkg of
        Inl e \<Rightarrow> (Inl e, s)
      | Inr v \<Rightarrow>
          (case py_input (''Do you want to uninstall '' @ pkg @ '' ('' @ v @ '')? (y/n): '') s of
             (Inl e, s1) \<Rightarrow> (Inl e, s1)
           | (Inr line, s1) \<Rightarrow>
               if lower (strip line) = ''y'' then
                 (case uninstall_package w pkg s1 of
                    (Inl e, s2) \<Rightarrow> (Inl e, s2)
                  | (Inr _, s2) \<Rightarrow> confirm_loop w ver pkgs s2)
               else confirm_loop w ver pkgs s1))"

text \<open>The list comprehension \<open>[p.strip() for p in pkg_input.split(",") if p.strip() in
  orphaned]\<close>.\<close>

definition selected_of :: "string list \<Rightarrow> string \<Rightarrow> string list" where
  "selected_of orphaned pkg_input =
     filter (\<lambda>p. p \<in> set orphaned) (map strip (split_comma pkg_input))"

text \<open>No step puts lines back on the console input; \<open>input\<close> takes one away.\<close>

lemma py_input_stdin:
  "py_input prompt s = (Inr line, s1) \<Longrightarrow> length (stdin s1) < length (stdin s)"
  by (auto simp: py_input_def split: list.splits)

lemma py_input_stdin_le:
  "py_input prompt s = (r, s1) \<Longrightarrow> length (stdin s1) \<le> length (stdin s)"
  by (auto simp: py_input_def split: list.splits)

lemma py_print_stdin: "stdin (py_print line s) = stdin s"
  by (simp add: py_print_def)

lemma subprocess_run_stdin: "stdin (snd (subprocess_run check c w s)) = stdin s"
  by (simp add: subprocess_run_def Let_def)

lemma uninstall_package_stdin: "stdin (snd (uninstall_package w pkg s)) = stdin s"
  using subprocess_run_stdin [of False "PipUninstall pkg" w "py_print (CHR 0x0A # ''Uninstalling '' @ pkg @ ''...'') s"]
  by (auto simp: uninstall_package_def py_print_stdin split: prod.splits sum.splits)

lemma confirm_loop_stdin:
  "length (stdin (snd (confirm_loop w ver pkgs s))) \<le> length (stdin s)"
proof (induction pkgs arbitrary: s)
  case Nil
  then show ?case by simp
next
  case (Cons pkg pkgs)
  show ?case
  proof (cases "ver pkg")
    case (Inl e)
    then show ?thesis by simp
  next
    case (Inr v)
    obtain r s1 where inp: "py_input (''Do you want to uninstall '' @ pkg @ '' ('' @ v @ '')? (y/n): '') s = (r, s1)"
      by (cases "py_input (''Do you want to uninstall '' @ pkg @ '' ('' @ v @ '')? (y/n): '') s")
    have le1: "length (stdin s1) \<le> length (stdin s)"
      using inp by (rule py_input_stdin_le)
    show ?thesis
    proof (cases r)
      case (Inl e)
      with Inr inp le1 show ?thesis by simp
    next
      case line: (Inr line)
      obtain r2 s2 where un: "uninstall_package w pkg s1 = (r2, s2)"
        by (cases "uninstall_package w pkg s1")
      have eq2: "stdin s2 = stdin s1"
        using uninstall_package_stdin [of w pkg s1] un by simp
      show ?thesis
        using Inr inp line un le1 eq2 Cons.IH [of s1] Cons.IH [of s2]
        by (auto split: sum.splits)
    qed
  qed
qed

text \<open>The \<open>while True\<close> loop of the selective branch (lines 116 to 133; 81 to 98 of
  \<open>main.py\<close>). Every round reads at least one line, so on a finite console input the loop
  ends, with \<open>EOFError\<close> when the input runs out.\<close>

function select_loop ::
  "world \<Rightarrow> (string \<Rightarrow> error + string) \<Rightarrow> string list \<Rightarrow> io \<Rightarrow> (error + unit) \<times> io" where
  "select_loop w ver orphaned s =
     (case py_input ''Enter package name(s) to uninstall (comma separated), or 'q' to quit: '' s of
        (Inl e, s1) \<Rightarrow> (Inl e, s1)
      | (Inr line, s1) \<Rightarrow>
          (let pkg_input = strip line
           in if lower pkg_input = ''q'' then (Inr (), s1)
              else
                (let selected = selected_of orphaned pkg_input
                 in if selected = [] then
                      select_loop w ver orphaned (py_print ''No valid packages selected. Try again.'' s1)
                    else
                      (case confirm_loop w ver selected s1 of
                         (Inl e, s2) \<Rightarrow> (Inl e, s2)
                       | (Inr _, s2) \<Rightarrow>
                           (case py_input (CHR 0x0A # ''Do you want to uninstall more packages? (y/n): '') s2 of
                              (Inl e, s3) \<Rightarrow> (Inl e, s3)
                            | (Inr more', s3) \<Rightarrow>
                                if lower (strip more') \<noteq> ''y'' then (Inr (), s3)
                                else select_loop w ver orphaned s3)))))"
  by pat_completeness auto
termination
proof (relation "measure (\<lambda>(w, ver, orphaned, s). length (stdin s))", goal_cases)
  case 1
  show ?case by simp
next
  case (2 w ver orphaned s x1 x2 line)
  then show ?case
    by (auto simp: py_print_stdin dest: py_input_stdin [OF sym])
next
  case (3 w ver orphaned s x1 x2 line pkg_input selected x1a s2 u x1b s3 more)
  have "length (stdin s2) \<le> length (stdin x2)"
    using confirm_loop_stdin [of w ver selected x2] 3 by (metis snd_conv)
  moreover have "length (stdin x2) < length (stdin s)"
    using 3 by (auto dest: py_input_stdin [OF sym])
  moreover have "length (stdin s3) \<le> length (stdin s2)"
    using 3 by (auto dest: py_input_stdin_le [OF sym])
  ultimately show ?case by simp
qed


text \<open>From \<open>Choose an option:\<close> to the end of the dialogue (lines 103 to 135; 68 to 101 of
  \<open>main.py\<close>).\<close>

definition uninstall_menu ::
  "world \<Rightarrow> (string \<Rightarrow> error + string) \<Rightarrow> string list \<Rightarrow> io \<Rightarrow> (error + unit) \<times> io" where
  "uninstall_menu w ver orphaned s =
     (case py_input ''Enter 1 or 2: ''
             (py_print ''2. Uninstall specific package(s)''
                (py_print ''1. Uninstall all orphaned packages''
                   (py_print (CHR 0x0A # ''Choose an option:'') s))) of
        (Inl e, s1) \<Rightarrow> (Inl e, s1)
      | (Inr line, s1) \<Rightarrow>
          (let option = strip line
           in if option = ''1'' then
                (case confirm_loop w ver orphaned s1 of
                   (Inl e, s2) \<Rightarrow> (Inl e, s2)
                 | (Inr _, s2) \<Rightarrow>
                     (Inr (), py_print (CHR 0x0A # ''Finished uninstalling selected orphaned packages.'') s2))
              else if option = ''2'' then select_loop w ver orphaned s1
              else (Inr (), py_print ''Invalid option. Exiting.'' s1)))"

text \<open>The loop that lists the candidates: \<open>print(f" - {pkg} ({...})")\<close>, with the same
  version lookup as the prompts.\<close>

fun print_versions :: "(string \<Rightarrow> error + string) \<Rightarrow> string list \<Rightarrow> io \<Rightarrow> (error + unit) \<times> io" where
  "print_versions ver [] s = (Inr (), s)"
| "print_versions ver (pkg # pkgs) s =
     (case ver pkg of
        Inl e \<Rightarrow> (Inl e, s)
      | Inr v \<Rightarrow> print_versions ver pkgs (py_print ('' - '' @ pkg @ '' ('' @ v @ '')'') s))"

section \<open>python_package_cleaner.py: the dialogue and the script\<close>

definition orphaned_of :: "(string, class_entry) dict \<Rightarrow> string list" where
  "orphaned_of classified =
     map fst (filter (\<lambda>(pkg, info). used_by info = ''application'') classified)"

text \<open>\<open>classified[pkg]['version']\<close>.\<close>

definition classified_version :: "(string, class_entry) dict \<Rightarrow> string \<Rightarrow> error + string" where
  "classified_version classified pkg =
     (case subscript classified pkg of Inl e \<Rightarrow> Inl e | Inr info \<Rightarrow> Inr (c_version info))"

definition interactive_uninstall :: "world \<Rightarrow> (string, class_entry) dict \<Rightarrow> io \<Rightarrow> (error + unit) \<times> io" where
  "interactive_uninstall w classified s =
     (let orphaned = orphaned_of classified
      in if orphaned = [] then
           (Inr (), py_print (CHR 0x0A # ''No orphaned packages safe to uninstall.'') s)
         else
           (case print_versions (classified_version classified) orphaned
                   (py_print (CHR 0x0A # ''Orphaned packages safe to uninstall:'') s) of
              (Inl e, s1) \<Rightarrow> (Inl e, s1)
            | (Inr _, s1) \<Rightarrow>
                (case py_input (CHR 0x0A # ''Do you want to uninstall any of these packages? (y/n): '') s1 of
                   (Inl e, s2) \<Rightarrow> (Inl e, s2)
                 | (Inr choice, s2) \<Rightarrow>
                     if lower (strip choice) \<noteq> ''y'' then (Inr (), s2)
                     else uninstall_menu w (classified_version classified) orphaned s2)))"

text \<open>The \<open>__main__\<close> block of \<open>python_package_cleaner.py\<close> (lines 137 to 143).\<close>

definition cleaner_script :: "world \<Rightarrow> io \<Rightarrow> (error + unit) \<times> io" where
  "cleaner_script w s =
     (case ensure_pipdeptree w s of
        (Inl e, s1) \<Rightarrow> (Inl e, s1)
      | (Inr _, s1) \<Rightarrow>
          (case get_installed_packages w (py_print ''Scanning installed packages...'' s1) of
             (Inl e, s2) \<Rightarrow> (Inl e, s2)
           | (Inr installed_packages, s2) \<Rightarrow>
               (case classify_packages w installed_packages s2 of
                  (Inl e, s3) \<Rightarrow> (Inl e, s3)
                | (Inr classified, s3) \<Rightarrow>
                    interactive_uninstall w classified (display_packages classified s3))))"

section \<open>main.py\<close>

text \<open>The dictionary comprehension \<open>{pkg["name"]: pkg["version"] for pkg in packages}\<close>.\<close>

fun main_installed_from :: "pkg_obj list \<Rightarrow> (string, string) dict \<Rightarrow> error + (string, string) dict" where
  "main_installed_from [] acc = Inr acc"
| "main_installed_from (pkg # packages) acc =
     (case subscript pkg ''name'' of
        Inl e \<Rightarrow> Inl e
      | Inr name \<Rightarrow>
          (case subscript pkg ''version'' of
             Inl e \<Rightarrow> Inl e
           | Inr v \<Rightarrow> main_installed_from packages (AList.update name v acc)))"

definition main_get_installed_packages :: "world \<Rightarrow> io \<Rightarrow> (error + (string, string) dict) \<times> io" where
  "main_get_installed_packages w s =
     (case subprocess_run True PipList w s of
        (Inl e, s1) \<Rightarrow> (Inl e, s1)
      | (Inr _, s1) \<Rightarrow>
          (case list_stdout w of
             None \<Rightarrow> (Inl JSONDecodeError, s1)
           | Some packages \<Rightarrow> (main_installed_from packages [], s1)))"

definition find_orphans :: "world \<Rightarrow> io \<Rightarrow> (error + string list \<times> (string, string) dict) \<times> io" where
  "find_orphans w s =
     (case main_get_installed_packages w s of
        (Inl e, s1) \<Rightarrow> (Inl e, s1)
      | (Inr installed_packages, s1) \<Rightarrow>
          (case get_dependency_tree w s1 of
             (Inl e, s2) \<Rightarrow> (Inl e, s2)
           | (Inr tree, s2) \<Rightarrow>
               (Inr (orphans_of (required_packages tree) installed_packages, installed_packages), s2)))"

text \<open>The \<open>__main__\<close> block of \<open>main.py\<close> after \<open>find_orphans\<close> has returned (lines 52
  to 101); \<open>exit()\<close> raises \<open>SystemExit\<close>.\<close>

definition main_dialogue ::
  "world \<Rightarrow> string list \<Rightarrow> (string, string) dict \<Rightarrow> io \<Rightarrow> (error + unit) \<times> io" where
  "main_dialogue w orphans installed_packages s =
     (let s1 = fold (\<lambda>(pkg, v). py_print ('' - '' @ pkg @ '' ('' @ v @ '')''))
                 installed_packages
                 (py_print (CHR 0x0A # ''Installed packages:'') s)
      in if orphans = [] then
           (Inr (), py_print (CHR 0x0A # ''No orphaned packages found.'') s1)
         else
           (case print_versions (subscript installed_packages) orphans
                   (py_print (CHR 0x0A # ''Orphaned packages (not required by any other package):'') s1) of
              (Inl e, s2) \<Rightarrow> (Inl e, s2)
            | (Inr _, s2) \<Rightarrow>
                (case py_input (CHR 0x0A # ''Do you want to uninstall any of these packages? (y/n): '') s2 of
                   (Inl e, s3) \<Rightarrow> (Inl e, s3)
                 | (Inr choice, s3) \<Rightarrow>
                     if lower (strip choice) \<noteq> ''y'' then
                       (Inl SystemExit, py_print ''No packages were uninstalled.'' s3)
                     else uninstall_menu w (subscript installed_packages) orphans s3)))"

text \<open>The \<open>__main__\<close> block of \<open>main.py\<close> (lines 48 to 101).\<close>

definition main_script :: "world \<Rightarrow> io \<Rightarrow> (error + unit) \<times> io" where
  "main_script w s =
     (case find_orphans w (py_print ''Scanning installed packages...'' s) of
        (Inl e, s1) \<Rightarrow> (Inl e, s1)
      | (Inr (orphans, installed_packages), s1) \<Rightarrow> main_dialogue w orphans installed_packages s1)"

section \<open>Reading a trace\<close>

text \<open>The package names of the uninstall subprocesses of a trace, in order.\<close>

fun uninstalled :: "event list \<Rightarrow> string list" where
  "uninstalled [] = []"
| "uninstalled (Run (PipUninstall pkg) # es) = pkg # uninstalled es"
| "uninstalled (e # es) = uninstalled es"

declare select_loop.simps [simp del]

section \<open>The two computations over their variables\<close>

text \<open>\<open>classify_packages\<close> once \<open>tree\<close> is bound (lines 56 to 74), as a program over
  the variables in scope: the two arguments and the two locals. Every statement is a
  function on this record.\<close>

record cvars =
  v_installed_packages :: "(string, pkg_data) dict"
  v_tree :: "tree_entry list"
  v_required_packages :: "string set"
  v_classified :: "(string, class_entry) dict"

text \<open>\<open>required_packages.add(dep["package_name"])\<close>.\<close>

definition add_required :: "dep \<Rightarrow> cvars \<Rightarrow> cvars" where
  "add_required dep s =
     s\<lparr>v_required_packages := insert (package_name dep) (v_required_packages s)\<rparr>"

text \<open>\<open>classified[pkg] = {...}\<close>.\<close>

definition set_classified :: "string \<times> pkg_data \<Rightarrow> cvars \<Rightarrow> cvars" where
  "set_classified item s =
     (case item of (pkg, data) \<Rightarrow>
        s\<lparr>v_classified :=
             AList.update pkg (classify_entry (v_required_packages s) pkg data) (v_classified s)\<rparr>)"

definition classify_vars :: "cvars \<Rightarrow> cvars" where
  "classify_vars s0 =
     (let s1 = s0\<lparr>v_required_packages := {}\<rparr>;
          s2 = fold (\<lambda>pkg. fold add_required (get_dependencies pkg)) (v_tree s1) s1;
          s3 = s2\<lparr>v_classified := []\<rparr>
      in fold set_classified (v_installed_packages s3) s3)"

text \<open>\<open>find_orphans\<close> of \<open>main.py\<close> once \<open>installed_packages\<close> and \<open>tree\<close> are
  bound (lines 35 to 40).\<close>

record fvars =
  f_installed_packages :: "(string, string) dict"
  f_tree :: "tree_entry list"
  f_required_packages :: "string set"
  f_orphans :: "string list"

definition f_add_required :: "dep \<Rightarrow> fvars \<Rightarrow> fvars" where
  "f_add_required dep s =
     s\<lparr>f_required_packages := insert (package_name dep) (f_required_packages s)\<rparr>"

definition find_orphans_vars :: "fvars \<Rightarrow> fvars" where
  "find_orphans_vars s0 =
     (let s1 = s0\<lparr>f_required_packages := {}\<rparr>;
          s2 = fold (\<lambda>pkg. fold f_add_required (get_dependencies pkg)) (f_tree s1) s1
      in s2\<lparr>f_orphans :=
              filter (\<lambda>pkg. pkg \<notin> f_required_packages s2) (map fst (f_installed_packages s2))\<rparr>)"

section \<open>Example inputs\<close>

definition tree_example :: "tree_entry list" where
  "tree_example =
     [\<lparr>package = ''A'', dependencies = Some [\<lparr>package_name = ''B''\<rparr>, \<lparr>package_name = ''C''\<rparr>]\<rparr>,
      \<lparr>package = ''D'', dependencies = Some [\<lparr>package_name = ''C''\<rparr>]\<rparr>,
      \<lparr>package = ''E'', dependencies = None\<rparr>]"

text \<open>An installed mapping with one package under a system directory, one protected name
  and two ordinary packages.\<close>

definition installed_example :: "(string, pkg_data) dict" where
  "installed_example =
     [(''A'', \<lparr>version = ''1.0'', location = Some ''/opt/app/site-packages''\<rparr>),
      (''B'', \<lparr>version = ''2.0'', location = Some ''/opt/app/site-packages''\<rparr>),
      (''pip'', \<lparr>version = ''23'', location = Some ''/opt/app/site-packages''\<rparr>),
      (''six'', \<lparr>version = ''1.16'', location = Some ''/Library/Python/3.9/site-packages''\<rparr>)]"

text \<open>One object as \<open>pip list --format=json --verbose\<close> prints it: the keys are
  \<open>name\<close>, \<open>version\<close>, \<open>location\<close> and \<open>installer\<close>.\<close>

definition pip_object_example :: pkg_obj where
  "pip_object_example =
     [(''name'', ''requests''), (''version'', ''2.31.0''),
      (''location'', ''/Library/Python/3.9/site-packages''), (''installer'', ''pip'')]"

text \<open>A world in which every subprocess succeeds.\<close>

definition world_example :: world where
  "world_example =
     \<lparr>exit_status = (\<lambda>tr c. 0),
      list_stdout = Some [pip_object_example],
      tree_stdout = Some []\<rparr>"

text \<open>A classification with two candidates, and an installed mapping of \<open>main.py\<close> with
  the same two packages.\<close>

definition classified_two :: "(string, class_entry) dict" where
  "classified_two =
     [(''flask'', \<lparr>c_version = ''3.0'', used_by = ''application'', system = False\<rparr>),
      (''pip'', \<lparr>c_version = ''23'', used_by = ''system (do not remove)'', system = True\<rparr>),
      (''six'', \<lparr>c_version = ''1.16'', used_by = ''application'', system = False\<rparr>)]"

definition installed_two :: "(string, string) dict" where
  "installed_two = [(''flask'', ''3.0''), (''six'', ''1.16'')]"

text \<open>A world without the dependency-tree tool in which installing it fails too, and a
  world in which every uninstall fails.\<close>

definition world_no_tool :: world where
  "world_no_tool =
     \<lparr>exit_status = (\<lambda>tr c. if c = PipdeptreeVersion \<or> c = PipInstallPipdeptree then 1 else 0),
      list_stdout = Some [pip_object_example],
      tree_stdout = Some []\<rparr>"

definition world_uninstall_fails :: world where
  "world_uninstall_fails =
     \<lparr>exit_status = (\<lambda>tr c. case c of PipUninstall p \<Rightarrow> 1 | _ \<Rightarrow> 0),
      list_stdout = Some [pip_object_example],
      tree_stdout = Some []\<rparr>"

text \<open>A fresh environment with the package manager, its bootstrap package and the
  dependency-tree tool: the tool requires \<open>packaging\<close> and \<open>pip\<close>, nothing requires the
  tool or \<open>setuptools\<close>.\<close>

definition world_fresh :: world where
  "world_fresh =
     \<lparr>exit_status = (\<lambda>tr c. 0),
      list_stdout = Some [[(''name'', ''packaging''), (''version'', ''24.0'')],
                          [(''name'', ''pip''), (''version'', ''23.0'')],
                          [(''name'', ''pipdeptree''), (''version'', ''2.13'')],
                          [(''name'', ''setuptools''), (''version'', ''65.5'')]],
      tree_stdout = Some [\<lparr>package = ''packaging'', dependencies = Some []\<rparr>,
                          \<lparr>package = ''pip'', dependencies = Some []\<rparr>,
                          \<lparr>package = ''pipdeptree'',
                             dependencies = Some [\<lparr>package_name = ''packaging''\<rparr>,
                                                  \<lparr>package_name = ''pip''\<rparr>]\<rparr>,
                          \<lparr>package = ''setuptools'', dependencies = Some []\<rparr>]\<rparr>"

section \<open>The required set\<close>

lemma fold_insert_deps:
  "fold (\<lambda>dep r. insert (package_name dep) r) ds req = req \<union> package_name ` set ds"
  by (induction ds arbitrary: req) auto

lemma fold_required:
  "fold (\<lambda>pkg req. fold (\<lambda>dep r. insert (package_name dep) r) (get_dependencies pkg) req) T req
     = req \<union> (\<Union>pkg\<in>set T. package_name ` set (get_dependencies pkg))"
  by (induction T arbitrary: req) (auto simp: fold_insert_deps)

lemma required_packages_set:
  "required_packages T = (\<Union>pkg\<in>set T. package_name ` set (get_dependencies pkg))"
  by (simp add: required_packages_def fold_required)

lemma required_packages_concat:
  "required_packages T = set (concat (map (map package_name \<circ> get_dependencies) T))"
  by (auto simp: required_packages_set)

lemma required_packages_mset:
  assumes "mset (map (mset \<circ> get_dependencies) T') = mset (map (mset \<circ> get_dependencies) T)"
  shows "required_packages T' = required_packages T"
proof -
  have "set (map (mset \<circ> get_dependencies) T') = set (map (mset \<circ> get_dependencies) T)"
    using assms by (rule mset_eq_setD)
  then have eq: "(mset \<circ> get_dependencies) ` set T' = (mset \<circ> get_dependencies) ` set T"
    by simp
  have h: "required_packages U
             = \<Union> ((\<lambda>m. package_name ` set_mset m) ` ((mset \<circ> get_dependencies) ` set U))" for U
    by (simp add: required_packages_set image_image)
  show ?thesis by (simp only: h eq)
qed

lemma list_all2_mset_deps:
  "list_all2 (\<lambda>e e'. mset (get_dependencies e') = mset (get_dependencies e)) T T'
     \<Longrightarrow> map (mset \<circ> get_dependencies) T' = map (mset \<circ> get_dependencies) T"
  by (induction T T' rule: list_all2_induct) auto

text \<open>
  Claim C1. For every dependency tree, the required set computed by the two scripts is
  exactly the set of the \<open>package_name\<close> values in the dependency lists of its entries:
  every such name is a member and no other name is; it has as many elements as there are
  distinct names; and it is the same for any reordering of the entries and for any
  reordering of the dependency list of each entry.
\<close>

theorem required_packages_exact:
  "required_packages T = (\<Union>pkg\<in>set T. package_name ` set (get_dependencies pkg))
   \<and> card (required_packages T)
       = length (remdups (concat (map (map package_name \<circ> get_dependencies) T)))
   \<and> (\<forall>T'. mset T' = mset T \<longrightarrow> required_packages T' = required_packages T)
   \<and> (\<forall>T'. list_all2 (\<lambda>e e'. mset (get_dependencies e') = mset (get_dependencies e)) T T'
          \<longrightarrow> required_packages T' = required_packages T)"
proof (intro conjI allI impI)
  show "required_packages T = (\<Union>pkg\<in>set T. package_name ` set (get_dependencies pkg))"
    by (rule required_packages_set)
  show "card (required_packages T)
          = length (remdups (concat (map (map package_name \<circ> get_dependencies) T)))"
    unfolding required_packages_concat by (rule card_set)
next
  fix T' assume "mset T' = mset T"
  then have "mset (map (mset \<circ> get_dependencies) T') = mset (map (mset \<circ> get_dependencies) T)"
    by (metis mset_map)
  then show "required_packages T' = required_packages T"
    by (rule required_packages_mset)
next
  fix T' assume "list_all2 (\<lambda>e e'. mset (get_dependencies e') = mset (get_dependencies e)) T T'"
  then have "map (mset \<circ> get_dependencies) T' = map (mset \<circ> get_dependencies) T"
    by (rule list_all2_mset_deps)
  then have "mset (map (mset \<circ> get_dependencies) T') = mset (map (mset \<circ> get_dependencies) T)"
    by (rule arg_cong)
  then show "required_packages T' = required_packages T"
    by (rule required_packages_mset)
qed

theorem required_packages_exact_witness:
  "required_packages tree_example = {''B'', ''C''}
   \<and> card (required_packages tree_example) = 2
   \<and> required_packages (rev tree_example) = required_packages tree_example
   \<and> required_packages
        [\<lparr>package = ''A'', dependencies = Some [\<lparr>package_name = ''C''\<rparr>, \<lparr>package_name = ''B''\<rparr>]\<rparr>,
         \<lparr>package = ''D'', dependencies = Some [\<lparr>package_name = ''C''\<rparr>]\<rparr>,
         \<lparr>package = ''E'', dependencies = None\<rparr>] = required_packages tree_example"
proof -
  note t = required_packages_exact [of tree_example]
  have deps: "get_dependencies \<lparr>package = p, dependencies = Some ds\<rparr> = ds"
    "get_dependencies \<lparr>package = p, dependencies = None\<rparr> = []" for p ds
    by (simp_all add: get_dependencies_def)
  have 1: "required_packages tree_example = {''B'', ''C''}"
    using t [THEN conjunct1] by (auto simp: tree_example_def deps)
  have 2: "card (required_packages tree_example) = 2"
    using t [THEN conjunct2, THEN conjunct1] by (simp add: tree_example_def deps)
  have 3: "required_packages (rev tree_example) = required_packages tree_example"
    using t [THEN conjunct2, THEN conjunct2, THEN conjunct1, THEN spec, of "rev tree_example"]
    by simp
  have la: "list_all2 (\<lambda>e e'. mset (get_dependencies e') = mset (get_dependencies e)) tree_example
     [\<lparr>package = ''A'', dependencies = Some [\<lparr>package_name = ''C''\<rparr>, \<lparr>package_name = ''B''\<rparr>]\<rparr>,
      \<lparr>package = ''D'', dependencies = Some [\<lparr>package_name = ''C''\<rparr>]\<rparr>,
      \<lparr>package = ''E'', dependencies = None\<rparr>]"
    by (simp add: tree_example_def deps)
  note 4 = t [THEN conjunct2, THEN conjunct2, THEN conjunct2, THEN spec, THEN mp, OF la]
  show ?thesis
    using 1 2 3 4 by (intro conjI)
qed


section \<open>The classification\<close>

lemma update_append_fresh:
  "k \<notin> fst ` set al \<Longrightarrow> AList.update k v al = al @ [(k, v)]"
  by (induction al) auto

lemma classified_fold_distinct:
  "distinct (map fst acc @ map fst I) \<Longrightarrow>
   fold (\<lambda>(pkg, data) classified. AList.update pkg (classify_entry req pkg data) classified) I acc
     = acc @ map (\<lambda>(pkg, data). (pkg, classify_entry req pkg data)) I"
proof (induction I arbitrary: acc)
  case Nil
  then show ?case by simp
next
  case (Cons a I)
  obtain pkg data where a: "a = (pkg, data)" by (cases a)
  from Cons.prems a have fresh: "pkg \<notin> fst ` set acc"
    by auto
  from Cons.prems a have d: "distinct (map fst (acc @ [(pkg, classify_entry req pkg data)]) @ map fst I)"
    by auto
  show ?case
    using Cons.IH [OF d] a by (simp add: update_append_fresh [OF fresh])
qed

lemma classified_of_distinct:
  "distinct (map fst I) \<Longrightarrow>
   classified_of req I = map (\<lambda>(pkg, data). (pkg, classify_entry req pkg data)) I"
  using classified_fold_distinct [of "[]" I req] by (simp add: classified_of_def)

lemma classified_fold_keys:
  "fst ` set (fold (\<lambda>(pkg, data) classified. AList.update pkg (classify_entry req pkg data) classified) I acc)
     = fst ` set acc \<union> fst ` set I"
  by (induction I arbitrary: acc) (auto simp: dom_update split: prod.splits)

lemma classified_fold_distinct_keys:
  "distinct (map fst acc) \<Longrightarrow>
   distinct (map fst (fold (\<lambda>(pkg, data) classified. AList.update pkg (classify_entry req pkg data) classified) I acc))"
  by (induction I arbitrary: acc) (auto simp: distinct_update split: prod.splits)

lemma set_update_subset: "set (AList.update k v al) \<subseteq> insert (k, v) (set al)"
  by (induction al) auto

lemma classified_fold_entries:
  "(k, e) \<in> set (fold (\<lambda>(pkg, data) classified. AList.update pkg (classify_entry req pkg data) classified) I acc)
   \<Longrightarrow> (k, e) \<in> set acc \<or> (\<exists>data. (k, data) \<in> set I \<and> e = classify_entry req k data)"
proof (induction I arbitrary: acc)
  case Nil
  then show ?case by simp
next
  case (Cons a I)
  obtain pkg data where a: "a = (pkg, data)" by (cases a)
  from Cons.prems a
  have "(k, e) \<in> set (AList.update pkg (classify_entry req pkg data) acc)
        \<or> (\<exists>data. (k, data) \<in> set I \<and> e = classify_entry req k data)"
    using Cons.IH [of "AList.update pkg (classify_entry req pkg data) acc"] by simp
  then show ?case
    using set_update_subset [of pkg "classify_entry req pkg data" acc] a by auto
qed

lemma classified_of_keys: "set (map fst (classified_of req I)) = set (map fst I)"
  using classified_fold_keys [of req I "[]"] by (simp add: classified_of_def)

lemma classified_of_distinct_keys: "distinct (map fst (classified_of req I))"
  using classified_fold_distinct_keys [of "[]" req I] by (simp add: classified_of_def)

lemma classified_of_entries:
  "(k, e) \<in> set (classified_of req I) \<Longrightarrow> \<exists>data. (k, data) \<in> set I \<and> e = classify_entry req k data"
  using classified_fold_entries [of k e req I "[]"] by (simp add: classified_of_def)

lemma classified_of_lookup:
  assumes "distinct (map fst I)" and "(pkg, data) \<in> set I"
  shows "map_of (classified_of req I) pkg = Some (classify_entry req pkg data)"
proof -
  have "(pkg, classify_entry req pkg data) \<in> set (classified_of req I)"
    using assms by (force simp: classified_of_distinct)
  then show ?thesis
    using classified_of_distinct_keys [of req I] by simp
qed

lemma used_by_system:
  "used_by (classify_entry req pkg data) = ''system (do not remove)'' \<longleftrightarrow> is_system_of pkg data"
  by (simp add: classify_entry_def Let_def)

lemma used_by_required:
  "used_by (classify_entry req pkg data) = ''required by another package''
     \<longleftrightarrow> \<not> is_system_of pkg data \<and> pkg \<in> req"
  by (simp add: classify_entry_def Let_def)

lemma used_by_application:
  "used_by (classify_entry req pkg data) = ''application''
     \<longleftrightarrow> \<not> is_system_of pkg data \<and> pkg \<notin> req"
  by (simp add: classify_entry_def Let_def)

lemma system_classify_entry: "system (classify_entry req pkg data) = is_system_of pkg data"
  by (simp add: classify_entry_def Let_def)

lemma version_classify_entry: "c_version (classify_entry req pkg data) = version data"
  by (simp add: classify_entry_def Let_def)

lemma is_system_of_unfold:
  "is_system_of pkg data \<longleftrightarrow>
     (\<exists>sd\<in>set system_dirs. prefix sd (case location data of None \<Rightarrow> [] | Some l \<Rightarrow> l))
     \<or> pkg \<in> {''pip'', ''setuptools'', ''wheel'', ''pipdeptree''}"
  by (simp add: is_system_of_def Let_def skip_packages_def list_ex_iff)

text \<open>
  Claim C2. For an installed mapping (a dictionary, so its keys are distinct) and a required
  set, the entry stored for an installed package follows the first matching rule in the
  order system, required, application: it is marked system exactly when its location starts
  with one of the system directories or its name is one of \<open>pip\<close>, \<open>setuptools\<close>,
  \<open>wheel\<close>, \<open>pipdeptree\<close>; otherwise it is marked as required by another package
  exactly when its name is in the required set; otherwise it is an application. So a
  protected package that is also required is system, and a package that is neither
  protected nor required is an application.
\<close>

theorem classify_first_matching_rule:
  assumes "distinct (map fst installed_packages)"
    and "(pkg, data) \<in> set installed_packages"
  shows "let is_sys = ((\<exists>sd\<in>set system_dirs. prefix sd (case location data of None \<Rightarrow> [] | Some l \<Rightarrow> l))
                       \<or> pkg \<in> {''pip'', ''setuptools'', ''wheel'', ''pipdeptree''})
         in \<exists>info. map_of (classified_of required installed_packages) pkg = Some info
              \<and> c_version info = version data
              \<and> system info = is_sys
              \<and> (used_by info = ''system (do not remove)'' \<longleftrightarrow> is_sys)
              \<and> (used_by info = ''required by another package'' \<longleftrightarrow> \<not> is_sys \<and> pkg \<in> required)
              \<and> (used_by info = ''application'' \<longleftrightarrow> \<not> is_sys \<and> pkg \<notin> required)"
  unfolding Let_def is_system_of_unfold [symmetric]
  using classified_of_lookup [OF assms, of required]
  by (simp only: used_by_system used_by_required used_by_application system_classify_entry
        version_classify_entry simp_thms ex_simps option.inject)

theorem classify_first_matching_rule_witness:
  "distinct (map fst installed_example)
   \<and> (''pip'', \<lparr>version = ''23'', location = Some ''/opt/app/site-packages''\<rparr>) \<in> set installed_example
   \<and> (\<exists>info. map_of (classified_of {''B'', ''pip''} installed_example) ''pip'' = Some info
          \<and> c_version info = ''23'' \<and> system info
          \<and> used_by info = ''system (do not remove)'')"
proof -
  have d: "distinct (map fst installed_example)"
    by (simp add: installed_example_def)
  have m: "(''pip'', \<lparr>version = ''23'', location = Some ''/opt/app/site-packages''\<rparr>) \<in> set installed_example"
    by (simp add: installed_example_def)
  show ?thesis
    using classify_first_matching_rule [OF d m, of "{''B'', ''pip''}"] d m
    by (auto simp: Let_def)
qed

lemma used_by_cases:
  "used_by (classify_entry req pkg data) \<in>
     {''system (do not remove)'', ''required by another package'', ''application''}"
  by (simp add: classify_entry_def Let_def)

text \<open>
  Claim C3. The classification is total and exclusive: the keys of the output are distinct
  and are exactly the keys of the installed mapping (in the same order when the installed
  mapping is a dictionary), and every entry carries one of the three category strings,
  which are pairwise different.
\<close>

theorem classify_total_exclusive:
  "distinct (map fst (classified_of required installed_packages))
   \<and> set (map fst (classified_of required installed_packages)) = set (map fst installed_packages)
   \<and> (distinct (map fst installed_packages) \<longrightarrow>
        map fst (classified_of required installed_packages) = map fst installed_packages)
   \<and> (\<forall>(pkg, info) \<in> set (classified_of required installed_packages).
        used_by info \<in> {''system (do not remove)'', ''required by another package'', ''application''})
   \<and> distinct [''system (do not remove)'', ''required by another package'', ''application'']"
proof (intro conjI)
  show "distinct (map fst (classified_of required installed_packages))"
    by (rule classified_of_distinct_keys)
  show "set (map fst (classified_of required installed_packages)) = set (map fst installed_packages)"
    by (rule classified_of_keys)
  show "distinct (map fst installed_packages) \<longrightarrow>
          map fst (classified_of required installed_packages) = map fst installed_packages"
    by (simp add: classified_of_distinct case_prod_unfold)
  show "\<forall>(pkg, info) \<in> set (classified_of required installed_packages).
          used_by info \<in> {''system (do not remove)'', ''required by another package'', ''application''}"
  proof (rule ballI)
    fix x assume x: "x \<in> set (classified_of required installed_packages)"
    obtain pkg info where xe: "x = (pkg, info)" by (cases x)
    from x xe obtain data where "info = classify_entry required pkg data"
      using classified_of_entries by blast
    then show "case x of (pkg, info) \<Rightarrow>
        used_by info \<in> {''system (do not remove)'', ''required by another package'', ''application''}"
      using used_by_cases [of required pkg data] xe by simp
  qed
  show "distinct [''system (do not remove)'', ''required by another package'', ''application'']"
    by simp
qed

theorem classify_total_exclusive_witness:
  "map fst (classified_of {''B'', ''pip''} installed_example) = [''A'', ''B'', ''pip'', ''six'']
   \<and> map (used_by \<circ> snd) (classified_of {''B'', ''pip''} installed_example)
       = [''application'', ''required by another package'', ''system (do not remove)'',
          ''system (do not remove)'']"
proof -
  have d: "distinct (map fst installed_example)"
    by (simp add: installed_example_def)
  have k: "map fst (classified_of {''B'', ''pip''} installed_example) = [''A'', ''B'', ''pip'', ''six'']"
    using classify_total_exclusive [of "{''B'', ''pip''}" installed_example] d
    by (simp add: installed_example_def)
  have u: "map (used_by \<circ> snd) (classified_of {''B'', ''pip''} installed_example)
       = [''application'', ''required by another package'', ''system (do not remove)'',
          ''system (do not remove)'']"
    by (simp add: classified_of_def installed_example_def classify_entry_def is_system_of_def
          system_dirs_def skip_packages_def Let_def)
  from k u show ?thesis by (rule conjI)
qed


section \<open>Reading the list of installed packages\<close>

lemma installed_from_single:
  "subscript pkg ''name'' = Inr name \<Longrightarrow> subscript pkg ''version'' = Inr v \<Longrightarrow>
   installed_from [pkg] [] =
     Inr [(name, \<lparr>version = v,
                  location = Some (case map_of pkg ''Location'' of None \<Rightarrow> [] | Some l \<Rightarrow> l)\<rparr>)]"
  by simp

text \<open>
  Claim C4. \<open>get_installed_packages\<close> keys the mapping by name and copies the version, but
  it reads the location under the key \<open>Location\<close>, while the objects of the verbose JSON
  list carry it under \<open>location\<close>: on such an object the location field is present and
  the stored location is the empty string.
\<close>

theorem get_installed_packages_drops_location:
  "subscript pip_object_example ''location'' = Inr ''/Library/Python/3.9/site-packages''
   \<and> fst (get_installed_packages world_example \<lparr>stdin = [], trace = []\<rparr>)
       = Inr [(''requests'', \<lparr>version = ''2.31.0'', location = Some []\<rparr>)]"
  by (simp add: get_installed_packages_def subprocess_run_def world_example_def
        pip_object_example_def subscript_def Let_def)

section \<open>The computations leave their inputs alone\<close>

lemma fold_add_required_fields:
  "v_installed_packages (fold add_required ds s) = v_installed_packages s
   \<and> v_tree (fold add_required ds s) = v_tree s
   \<and> v_classified (fold add_required ds s) = v_classified s
   \<and> v_required_packages (fold add_required ds s) = v_required_packages s \<union> package_name ` set ds"
  by (induction ds arbitrary: s) (auto simp: add_required_def)

lemma fold_tree_fields:
  "v_installed_packages (fold (\<lambda>pkg. fold add_required (get_dependencies pkg)) T s) = v_installed_packages s
   \<and> v_tree (fold (\<lambda>pkg. fold add_required (get_dependencies pkg)) T s) = v_tree s
   \<and> v_classified (fold (\<lambda>pkg. fold add_required (get_dependencies pkg)) T s) = v_classified s
   \<and> v_required_packages (fold (\<lambda>pkg. fold add_required (get_dependencies pkg)) T s)
       = v_required_packages s \<union> (\<Union>pkg\<in>set T. package_name ` set (get_dependencies pkg))"
  by (induction T arbitrary: s) (auto simp: fold_add_required_fields)

lemma fold_set_classified_fields:
  "v_installed_packages (fold set_classified I s) = v_installed_packages s
   \<and> v_tree (fold set_classified I s) = v_tree s
   \<and> v_required_packages (fold set_classified I s) = v_required_packages s
   \<and> v_classified (fold set_classified I s)
       = fold (\<lambda>(pkg, data) classified.
                 AList.update pkg (classify_entry (v_required_packages s) pkg data) classified)
           I (v_classified s)"
  by (induction I arbitrary: s) (auto simp: set_classified_def split: prod.splits)

lemma classify_vars_fields:
  "v_installed_packages (classify_vars s) = v_installed_packages s"
  "v_tree (classify_vars s) = v_tree s"
  "v_required_packages (classify_vars s) = required_packages (v_tree s)"
  "v_classified (classify_vars s)
     = classified_of (required_packages (v_tree s)) (v_installed_packages s)"
  by (simp_all add: classify_vars_def Let_def fold_set_classified_fields fold_tree_fields
        required_packages_set classified_of_def)

lemma fold_f_add_required_fields:
  "f_installed_packages (fold f_add_required ds s) = f_installed_packages s
   \<and> f_tree (fold f_add_required ds s) = f_tree s
   \<and> f_orphans (fold f_add_required ds s) = f_orphans s
   \<and> f_required_packages (fold f_add_required ds s) = f_required_packages s \<union> package_name ` set ds"
  by (induction ds arbitrary: s) (auto simp: f_add_required_def)

lemma fold_f_tree_fields:
  "f_installed_packages (fold (\<lambda>pkg. fold f_add_required (get_dependencies pkg)) T s) = f_installed_packages s
   \<and> f_tree (fold (\<lambda>pkg. fold f_add_required (get_dependencies pkg)) T s) = f_tree s
   \<and> f_orphans (fold (\<lambda>pkg. fold f_add_required (get_dependencies pkg)) T s) = f_orphans s
   \<and> f_required_packages (fold (\<lambda>pkg. fold f_add_required (get_dependencies pkg)) T s)
       = f_required_packages s \<union> (\<Union>pkg\<in>set T. package_name ` set (get_dependencies pkg))"
  by (induction T arbitrary: s) (auto simp: fold_f_add_required_fields)

lemma find_orphans_vars_fields:
  "f_installed_packages (find_orphans_vars s) = f_installed_packages s"
  "f_tree (find_orphans_vars s) = f_tree s"
  "f_required_packages (find_orphans_vars s) = required_packages (f_tree s)"
  "f_orphans (find_orphans_vars s)
     = orphans_of (required_packages (f_tree s)) (f_installed_packages s)"
  by (simp_all add: find_orphans_vars_def Let_def fold_f_tree_fields
        required_packages_set orphans_of_def)

lemma classify_packages_result:
  "exit_status w (trace s) PipdeptreeJson = 0 \<Longrightarrow> tree_stdout w = Some T \<Longrightarrow>
   fst (classify_packages w I s) = Inr (classified_of (required_packages T) I)"
  by (simp add: classify_packages_def get_dependency_tree_def subprocess_run_def Let_def)

lemma find_orphans_result:
  "exit_status w (trace s) PipList = 0 \<Longrightarrow> list_stdout w = Some pkgs \<Longrightarrow>
   main_installed_from pkgs [] = Inr I \<Longrightarrow>
   exit_status w (trace s @ [Run PipList]) PipdeptreeJson = 0 \<Longrightarrow> tree_stdout w = Some T \<Longrightarrow>
   fst (find_orphans w s) = Inr (orphans_of (required_packages T) I, I)"
  by (simp add: find_orphans_def main_get_installed_packages_def get_dependency_tree_def
        subprocess_run_def Let_def)

text \<open>
  Claim C5. Running the classification leaves the installed mapping and the tree as they
  were, and running it again on the state the first run left gives the same output; the
  output is a function of the installed mapping and the tree alone. The same holds for the
  computation of the orphans in \<open>main.py\<close>. Whenever the queries succeed, what
  \<open>classify_packages\<close> and \<open>find_orphans\<close> return is that function of the data they
  were given, whatever happened before the call.
\<close>

theorem classification_idempotent:
  "v_installed_packages (classify_vars s) = v_installed_packages s
   \<and> v_tree (classify_vars s) = v_tree s
   \<and> v_classified (classify_vars (classify_vars s)) = v_classified (classify_vars s)
   \<and> v_classified (classify_vars s)
       = classified_of (required_packages (v_tree s)) (v_installed_packages s)
   \<and> f_installed_packages (find_orphans_vars t) = f_installed_packages t
   \<and> f_tree (find_orphans_vars t) = f_tree t
   \<and> f_orphans (find_orphans_vars (find_orphans_vars t)) = f_orphans (find_orphans_vars t)
   \<and> f_orphans (find_orphans_vars t)
       = orphans_of (required_packages (f_tree t)) (f_installed_packages t)
   \<and> (exit_status w (trace io) PipdeptreeJson = 0 \<and> tree_stdout w = Some T \<longrightarrow>
        fst (classify_packages w I io) = Inr (classified_of (required_packages T) I))
   \<and> (exit_status w (trace io) PipList = 0 \<and> list_stdout w = Some pkgs
        \<and> main_installed_from pkgs [] = Inr J
        \<and> exit_status w (trace io @ [Run PipList]) PipdeptreeJson = 0 \<and> tree_stdout w = Some T \<longrightarrow>
        fst (find_orphans w io) = Inr (orphans_of (required_packages T) J, J))"
proof -
  have a: "exit_status w (trace io) PipdeptreeJson = 0 \<and> tree_stdout w = Some T \<longrightarrow>
        fst (classify_packages w I io) = Inr (classified_of (required_packages T) I)"
    using classify_packages_result [of w io T I] by blast
  have b: "exit_status w (trace io) PipList = 0 \<and> list_stdout w = Some pkgs
        \<and> main_installed_from pkgs [] = Inr J
        \<and> exit_status w (trace io @ [Run PipList]) PipdeptreeJson = 0 \<and> tree_stdout w = Some T \<longrightarrow>
        fst (find_orphans w io) = Inr (orphans_of (required_packages T) J, J)"
    using find_orphans_result [of w io pkgs J T] by blast
  show ?thesis
    using a b by (simp only: classify_vars_fields find_orphans_vars_fields simp_thms)
qed

theorem classification_idempotent_witness:
  "fst (classify_packages world_fresh installed_example \<lparr>stdin = [], trace = []\<rparr>)
     = fst (classify_packages world_fresh installed_example
              (snd (classify_packages world_fresh installed_example \<lparr>stdin = [], trace = []\<rparr>)))
   \<and> fst (classify_packages world_fresh installed_example \<lparr>stdin = [], trace = []\<rparr>)
     = Inr (classified_of {''packaging'', ''pip''} installed_example)
   \<and> fst (find_orphans world_fresh \<lparr>stdin = [], trace = []\<rparr>)
     = Inr ([''pipdeptree'', ''setuptools''],
            [(''packaging'', ''24.0''), (''pip'', ''23.0''), (''pipdeptree'', ''2.13''),
             (''setuptools'', ''65.5'')])"
proof -
  let ?T = "[\<lparr>package = ''packaging'', dependencies = Some []\<rparr>,
             \<lparr>package = ''pip'', dependencies = Some []\<rparr>,
             \<lparr>package = ''pipdeptree'',
                dependencies = Some [\<lparr>package_name = ''packaging''\<rparr>, \<lparr>package_name = ''pip''\<rparr>]\<rparr>,
             \<lparr>package = ''setuptools'', dependencies = Some []\<rparr>]"
  let ?pkgs = "[[(''name'', ''packaging''), (''version'', ''24.0'')],
                [(''name'', ''pip''), (''version'', ''23.0'')],
                [(''name'', ''pipdeptree''), (''version'', ''2.13'')],
                [(''name'', ''setuptools''), (''version'', ''65.5'')]]"
  let ?J = "[(''packaging'', ''24.0''), (''pip'', ''23.0''), (''pipdeptree'', ''2.13''),
             (''setuptools'', ''65.5'')]"
  have e: "exit_status world_fresh tr c = 0" for tr c
    by (simp add: world_fresh_def)
  have t: "tree_stdout world_fresh = Some ?T" and l: "list_stdout world_fresh = Some ?pkgs"
    by (simp_all add: world_fresh_def)
  have j: "main_installed_from ?pkgs [] = Inr ?J"
    by (simp add: subscript_def)
  have r: "required_packages ?T = {''packaging'', ''pip''}"
    by (auto simp: required_packages_def get_dependencies_def)
  have o: "orphans_of {''packaging'', ''pip''} ?J = [''pipdeptree'', ''setuptools'']"
    by (simp add: orphans_of_def)
  note c = classification_idempotent [of _ _ world_fresh _ ?T installed_example ?pkgs ?J]
  have c1: "fst (classify_packages world_fresh installed_example io)
              = Inr (classified_of {''packaging'', ''pip''} installed_example)" for io
    using c [of _ _ io] e t r by simp
  have c2: "fst (find_orphans world_fresh \<lparr>stdin = [], trace = []\<rparr>) = Inr ([''pipdeptree'', ''setuptools''], ?J)"
    using c [of _ _ "\<lparr>stdin = [], trace = []\<rparr>"] e t l j r o by simp
  show ?thesis
    using c1 c2 by simp
qed


section \<open>Facts about the dialogue\<close>

text \<open>The only strings that \<open>lower\<close> maps to \<open>y\<close> are \<open>y\<close> and \<open>Y\<close>.\<close>

lemma of_char_lower_char:
  "(of_char (lower_char c) :: nat) =
     (if (65 \<le> (of_char c :: nat) \<and> (of_char c :: nat) \<le> 90)
         \<or> (192 \<le> (of_char c :: nat) \<and> (of_char c :: nat) \<le> 222 \<and> (of_char c :: nat) \<noteq> 215)
      then of_char c + 32 else of_char c)"
proof -
  have "(of_char c :: nat) \<le> 222 \<Longrightarrow> ((of_char c :: nat) + 32) mod 256 = of_char c + 32"
    by simp
  then show ?thesis
    by (auto simp: lower_char_def Let_def)
qed

lemma char_eq_iff_nat: "c = d \<longleftrightarrow> (of_char c :: nat) = of_char d"
  by simp

lemma lower_char_y: "lower_char c = CHR ''y'' \<longleftrightarrow> c = CHR ''y'' \<or> c = CHR ''Y''"
proof -
  have "lower_char c = CHR ''y'' \<longleftrightarrow> (of_char (lower_char c) :: nat) = 121"
    by (subst char_eq_iff_nat) simp
  also have "\<dots> \<longleftrightarrow> (of_char c :: nat) = 121 \<or> (of_char c :: nat) = 89"
    unfolding of_char_lower_char by auto
  also have "\<dots> \<longleftrightarrow> c = CHR ''y'' \<or> c = CHR ''Y''"
    using char_eq_iff_nat [of c "CHR ''y''"] char_eq_iff_nat [of c "CHR ''Y''"] by simp
  finally show ?thesis .
qed

lemma lower_y: "lower s = ''y'' \<longleftrightarrow> s = ''y'' \<or> s = ''Y''"
  by (cases s) (auto simp: lower_def lower_char_y)

lemma uninstalled_append: "uninstalled (xs @ ys) = uninstalled xs @ uninstalled ys"
  by (induction xs rule: uninstalled.induct) simp_all

lemma uninstall_package_eq:
  "uninstall_package w pkg s =
     (Inr (), s\<lparr>trace := trace s @ [Print (CHR 0x0A # ''Uninstalling '' @ pkg @ ''...''),
                                       Run (PipUninstall pkg)]\<rparr>)"
  by (simp add: uninstall_package_def subprocess_run_def py_print_def Let_def)


lemma isspace_simps:
  "isspace CHR '' ''" "\<not> isspace CHR ''y''" "\<not> isspace CHR ''Y''" "\<not> isspace CHR ''n''"
  "\<not> isspace CHR ''1''" "\<not> isspace CHR ''2''" "\<not> isspace CHR ''q''"
  by (simp_all add: isspace_def)


lemma uninstalled_subset:
  "set (uninstalled tr) \<subseteq> A \<longleftrightarrow> list_all (\<lambda>e. \<forall>p. e = Run (PipUninstall p) \<longrightarrow> p \<in> A) tr"
  by (induction tr rule: uninstalled.induct) auto

lemma uninstalled_inv_start:
  "list_all (\<lambda>e. \<forall>p. e = Run (PipUninstall p) \<longrightarrow> p \<in> set (uninstalled tr) \<union> B) tr"
  using uninstalled_subset [of tr "set (uninstalled tr) \<union> B"] by simp


lemma py_input_trace:
  "py_input prompt s = (r, s1) \<Longrightarrow> trace s1 = trace s @ [Prompt prompt]"
  by (auto simp: py_input_def split: list.splits)

lemma py_input_result:
  "py_input prompt s = (r, s1) \<Longrightarrow> r = Inl EOFError \<or> (\<exists>line. r = Inr line)"
  by (auto simp: py_input_def split: list.splits)

lemma py_print_trace: "trace (py_print line s) = trace s @ [Print line]"
  by (simp add: py_print_def)

text \<open>An invariant of the events: every line printed, every prompt and every uninstall of a
  package of the given list is allowed.\<close>

lemma confirm_loop_inv:
  assumes "\<And>l. Q (Print l)" and "\<And>p. Q (Prompt p)"
    and "\<And>p. p \<in> set pkgs \<Longrightarrow> Q (Run (PipUninstall p))"
  shows "list_all Q (trace s) \<Longrightarrow> list_all Q (trace (snd (confirm_loop w ver pkgs s)))"
  using assms(3)
proof (induction pkgs arbitrary: s)
  case Nil
  then show ?case by simp
next
  case (Cons pkg pkgs)
  have tail: "list_all Q (trace s') \<Longrightarrow> list_all Q (trace (snd (confirm_loop w ver pkgs s')))" for s'
    using Cons.IH [of s'] Cons.prems(2) by simp
  have here: "Q (Run (PipUninstall pkg))"
    using Cons.prems(2) by simp
  show ?case
    using Cons.prems(1) assms(1,2) here
    by (auto simp: uninstall_package_eq split: sum.splits prod.splits
          dest!: py_input_trace intro!: tail)
qed

lemma confirm_loop_result:
  assumes "\<And>p. p \<in> set pkgs \<Longrightarrow> \<exists>v. ver p = Inr v"
  shows "fst (confirm_loop w ver pkgs s) = Inr () \<or> fst (confirm_loop w ver pkgs s) = Inl EOFError"
  using assms
proof (induction pkgs arbitrary: s)
  case Nil
  then show ?case by simp
next
  case (Cons pkg pkgs)
  have tail: "fst (confirm_loop w ver pkgs s') = Inr () \<or> fst (confirm_loop w ver pkgs s') = Inl EOFError" for s'
    using Cons.IH [of s'] Cons.prems by simp
  obtain v where v: "ver pkg = Inr v"
    using Cons.prems by auto
  show ?case
    using v tail
    by (auto simp: uninstall_package_eq split: sum.splits prod.splits dest!: py_input_result)
qed

lemma confirm_loop_world: "confirm_loop w ver pkgs s = confirm_loop w' ver pkgs s"
  by (induction pkgs arbitrary: s) (auto simp: uninstall_package_eq split: sum.splits prod.splits)


lemma selected_of_subset: "set (selected_of orphaned pkg_input) \<subseteq> set orphaned"
  by (auto simp: selected_of_def)

lemma confirm_loop_cases:
  obtains e s2 where "confirm_loop w ver pkgs s = (Inl e, s2)"
  | s2 where "confirm_loop w ver pkgs s = (Inr (), s2)"
  by (cases "confirm_loop w ver pkgs s"; cases "fst (confirm_loop w ver pkgs s)") auto

lemma select_loop_inv:
  assumes "\<And>l. Q (Print l)" and "\<And>p. Q (Prompt p)"
    and "\<And>p. p \<in> set orphaned \<Longrightarrow> Q (Run (PipUninstall p))"
  shows "list_all Q (trace s) \<Longrightarrow> list_all Q (trace (snd (select_loop w ver orphaned s)))"
  using assms(3)
proof (induction w ver orphaned s rule: select_loop.induct)
  case (1 w ver orphaned s)
  let ?P = "''Enter package name(s) to uninstall (comma separated), or 'q' to quit: ''"
  let ?M = "CHR 0x0A # ''Do you want to uninstall more packages? (y/n): ''"
  obtain r s1 where inp: "py_input ?P s = (r, s1)"
    by (cases "py_input ?P s")
  have q1: "list_all Q (trace s1)"
    using py_input_trace [OF inp] "1.prems"(1) assms(2) by simp
  show ?case
  proof (cases r)
    case (Inl e)
    with inp q1 show ?thesis
      by (subst select_loop.simps) simp
  next
    case (Inr line)
    show ?thesis
    proof (cases "lower (strip line) = ''q''")
      case True
      with inp Inr q1 show ?thesis
        by (subst select_loop.simps) simp
    next
      case notq: False
      show ?thesis
      proof (cases "selected_of orphaned (strip line) = []")
        case True
        have "list_all Q (trace (py_print ''No valid packages selected. Try again.'' s1))"
          using q1 assms(1) by (simp add: py_print_trace)
        then have "list_all Q (trace (snd (select_loop w ver orphaned
                      (py_print ''No valid packages selected. Try again.'' s1))))"
          using "1.IH"(1) [OF inp [symmetric] Inr refl notq refl True] "1.prems"(2) True
          by blast
        with inp Inr notq True show ?thesis
          by (subst select_loop.simps) simp
      next
        case sel: False
        obtain r2 s2 where cl: "confirm_loop w ver (selected_of orphaned (strip line)) s1 = (r2, s2)"
          by (cases "confirm_loop w ver (selected_of orphaned (strip line)) s1")
        have q2: "list_all Q (trace s2)"
          using confirm_loop_inv [of Q "selected_of orphaned (strip line)" s1 w ver]
            assms(1,2) "1.prems"(2) selected_of_subset [of orphaned "strip line"] q1 cl
          by auto
        show ?thesis
        proof (cases r2)
          case (Inl e)
          with inp Inr notq sel cl q2 show ?thesis
            by (subst select_loop.simps) simp
        next
          case r2: (Inr u)
          obtain r3 s3 where inp3: "py_input ?M s2 = (r3, s3)"
            by (cases "py_input ?M s2")
          have q3: "list_all Q (trace s3)"
            using py_input_trace [OF inp3] q2 assms(2) by simp
          show ?thesis
          proof (cases r3)
            case (Inl e)
            with inp Inr notq sel cl r2 inp3 q3 show ?thesis
              by (subst select_loop.simps) simp
          next
            case r3: (Inr more')
            show ?thesis
            proof (cases "lower (strip more') \<noteq> ''y''")
              case True
              with inp Inr notq sel cl r2 inp3 r3 q3 show ?thesis
                by (subst select_loop.simps) simp
            next
              case False
              have "list_all Q (trace (snd (select_loop w ver orphaned s3)))"
                using "1.IH"(2) [OF inp [symmetric] Inr refl notq refl sel cl [symmetric] r2
                    inp3 [symmetric] r3 False] q3 "1.prems"(2)
                by blast
              with inp Inr notq sel cl r2 inp3 r3 False show ?thesis
                by (subst select_loop.simps) simp
            qed
          qed
        qed
      qed
    qed
  qed
qed


text \<open>One round of the selective loop, case by case. The outcome does not depend on the
  world.\<close>

lemma select_loop_round:
  fixes w :: world
  obtains
    (eof) e s1 where
      "py_input ''Enter package name(s) to uninstall (comma separated), or 'q' to quit: '' s = (Inl e, s1)"
      "\<And>w'. select_loop w' ver orphaned s = (Inl e, s1)"
  | (quit) line s1 where
      "py_input ''Enter package name(s) to uninstall (comma separated), or 'q' to quit: '' s = (Inr line, s1)"
      "lower (strip line) = ''q''"
      "\<And>w'. select_loop w' ver orphaned s = (Inr (), s1)"
  | (none) line s1 where
      "py_input ''Enter package name(s) to uninstall (comma separated), or 'q' to quit: '' s = (Inr line, s1)"
      "lower (strip line) \<noteq> ''q''"
      "selected_of orphaned (strip line) = []"
      "length (stdin (py_print ''No valid packages selected. Try again.'' s1)) < length (stdin s)"
      "\<And>w'. select_loop w' ver orphaned s
             = select_loop w' ver orphaned (py_print ''No valid packages selected. Try again.'' s1)"
  | (failed) line s1 e s2 where
      "py_input ''Enter package name(s) to uninstall (comma separated), or 'q' to quit: '' s = (Inr line, s1)"
      "lower (strip line) \<noteq> ''q''"
      "selected_of orphaned (strip line) \<noteq> []"
      "confirm_loop w ver (selected_of orphaned (strip line)) s1 = (Inl e, s2)"
      "\<And>w'. select_loop w' ver orphaned s = (Inl e, s2)"
  | (eof_more) line s1 s2 e s3 where
      "py_input ''Enter package name(s) to uninstall (comma separated), or 'q' to quit: '' s = (Inr line, s1)"
      "lower (strip line) \<noteq> ''q''"
      "selected_of orphaned (strip line) \<noteq> []"
      "confirm_loop w ver (selected_of orphaned (strip line)) s1 = (Inr (), s2)"
      "py_input (CHR 0x0A # ''Do you want to uninstall more packages? (y/n): '') s2 = (Inl e, s3)"
      "\<And>w'. select_loop w' ver orphaned s = (Inl e, s3)"
  | (stop) line s1 s2 more' s3 where
      "py_input ''Enter package name(s) to uninstall (comma separated), or 'q' to quit: '' s = (Inr line, s1)"
      "lower (strip line) \<noteq> ''q''"
      "selected_of orphaned (strip line) \<noteq> []"
      "confirm_loop w ver (selected_of orphaned (strip line)) s1 = (Inr (), s2)"
      "py_input (CHR 0x0A # ''Do you want to uninstall more packages? (y/n): '') s2 = (Inr more', s3)"
      "lower (strip more') \<noteq> ''y''"
      "\<And>w'. select_loop w' ver orphaned s = (Inr (), s3)"
  | (again) line s1 s2 more' s3 where
      "py_input ''Enter package name(s) to uninstall (comma separated), or 'q' to quit: '' s = (Inr line, s1)"
      "lower (strip line) \<noteq> ''q''"
      "selected_of orphaned (strip line) \<noteq> []"
      "confirm_loop w ver (selected_of orphaned (strip line)) s1 = (Inr (), s2)"
      "py_input (CHR 0x0A # ''Do you want to uninstall more packages? (y/n): '') s2 = (Inr more', s3)"
      "lower (strip more') = ''y''"
      "length (stdin s3) < length (stdin s)"
      "\<And>w'. select_loop w' ver orphaned s = select_loop w' ver orphaned s3"
proof -
  let ?P = "''Enter package name(s) to uninstall (comma separated), or 'q' to quit: ''"
  let ?M = "CHR 0x0A # ''Do you want to uninstall more packages? (y/n): ''"
  obtain r s1 where inp: "py_input ?P s = (r, s1)"
    by (cases "py_input ?P s")
  show thesis
  proof (cases r)
    case (Inl e)
    have "select_loop w' ver orphaned s = (Inl e, s1)" for w'
      using inp Inl by (subst select_loop.simps) simp
    with inp Inl show thesis by (blast intro: eof)
  next
    case rl: (Inr line)
    have lt1: "length (stdin s1) < length (stdin s)"
      using inp rl by (auto dest: py_input_stdin)
    show thesis
    proof (cases "lower (strip line) = ''q''")
      case True
      have "select_loop w' ver orphaned s = (Inr (), s1)" for w'
        using inp rl True by (subst select_loop.simps) simp
      with inp rl True show thesis by (blast intro: quit)
    next
      case notq: False
      show thesis
      proof (cases "selected_of orphaned (strip line) = []")
        case True
        have "select_loop w' ver orphaned s
                = select_loop w' ver orphaned (py_print ''No valid packages selected. Try again.'' s1)" for w'
          using inp rl notq True by (subst select_loop.simps) simp
        moreover have "length (stdin (py_print ''No valid packages selected. Try again.'' s1)) < length (stdin s)"
          using lt1 by (simp add: py_print_stdin)
        ultimately show thesis
          using inp rl notq True by (blast intro: none)
      next
        case sel: False
        obtain r2 s2 where cl: "confirm_loop w ver (selected_of orphaned (strip line)) s1 = (r2, s2)"
          by (cases "confirm_loop w ver (selected_of orphaned (strip line)) s1")
        have cl': "confirm_loop w' ver (selected_of orphaned (strip line)) s1 = (r2, s2)" for w'
          using cl confirm_loop_world [of w' ver "selected_of orphaned (strip line)" s1 w] by simp
        have le2: "length (stdin s2) \<le> length (stdin s1)"
          using confirm_loop_stdin [of w ver "selected_of orphaned (strip line)" s1] cl by simp
        show thesis
        proof (cases r2)
          case (Inl e)
          have "select_loop w' ver orphaned s = (Inl e, s2)" for w'
            using inp rl notq sel cl' [of w'] Inl by (subst select_loop.simps) simp
          with inp rl notq sel cl Inl show thesis by (blast intro: failed)
        next
          case (Inr u)
          then have r2: "r2 = Inr ()" by simp
          obtain r3 s3 where inp3: "py_input ?M s2 = (r3, s3)"
            by (cases "py_input ?M s2")
          show thesis
          proof (cases r3)
            case (Inl e)
            have "select_loop w' ver orphaned s = (Inl e, s3)" for w'
              using inp rl notq sel cl' [of w'] r2 inp3 Inl by (subst select_loop.simps) simp
            with inp rl notq sel cl r2 inp3 Inl show thesis by (blast intro: eof_more)
          next
            case r3: (Inr more')
            have lt3: "length (stdin s3) < length (stdin s)"
              using inp3 r3 le2 lt1 by (auto dest: py_input_stdin)
            show thesis
            proof (cases "lower (strip more') = ''y''")
              case True
              have "select_loop w' ver orphaned s = select_loop w' ver orphaned s3" for w'
                using inp rl notq sel cl' [of w'] r2 inp3 r3 True by (subst select_loop.simps) simp
              with inp rl notq sel cl r2 inp3 r3 True lt3 show thesis by (blast intro: again)
            next
              case False
              have "select_loop w' ver orphaned s = (Inr (), s3)" for w'
                using inp rl notq sel cl' [of w'] r2 inp3 r3 False by (subst select_loop.simps) simp
              with inp rl notq sel cl r2 inp3 r3 False show thesis by (blast intro: stop)
            qed
          qed
        qed
      qed
    qed
  qed
qed

lemma select_loop_world: "select_loop w ver orphaned s = select_loop w' ver orphaned s"
proof (induction "length (stdin s)" arbitrary: s rule: less_induct)
  case less
  show ?case
    by (cases rule: select_loop_round [where s = s and ver = ver and orphaned = orphaned and w = w]) (simp_all add: less)
qed

lemma select_loop_result:
  assumes "\<And>p. p \<in> set orphaned \<Longrightarrow> \<exists>v. ver p = Inr v"
  shows "fst (select_loop w ver orphaned s) = Inr () \<or> fst (select_loop w ver orphaned s) = Inl EOFError"
proof (induction "length (stdin s)" arbitrary: s rule: less_induct)
  case less
  have sel: "\<And>p. p \<in> set (selected_of orphaned l) \<Longrightarrow> \<exists>v. ver p = Inr v" for l
    using assms selected_of_subset by blast
  show ?case
  proof (cases rule: select_loop_round [where s = s and ver = ver and orphaned = orphaned and w = w])
    case (eof e s1)
    then show ?thesis using py_input_result by fastforce
  next
    case (quit line s1)
    then show ?thesis by simp
  next
    case (none line s1)
    then show ?thesis using less by simp
  next
    case (failed line s1 e s2)
    then show ?thesis
      using confirm_loop_result [of "selected_of orphaned (strip line)" ver w s1, OF sel] by auto
  next
    case (eof_more line s1 s2 e s3)
    then show ?thesis using py_input_result by fastforce
  next
    case (stop line s1 s2 more' s3)
    then show ?thesis by simp
  next
    case (again line s1 s2 more' s3)
    then show ?thesis using less by simp
  qed
qed


lemma print_versions_inv:
  assumes "\<And>l. Q (Print l)"
  shows "list_all Q (trace s) \<Longrightarrow> list_all Q (trace (snd (print_versions ver pkgs s)))"
  by (induction pkgs arbitrary: s) (auto simp: py_print_trace assms split: sum.splits)

lemma print_versions_result:
  "(\<And>p. p \<in> set pkgs \<Longrightarrow> \<exists>v. ver p = Inr v) \<Longrightarrow> fst (print_versions ver pkgs s) = Inr ()"
proof (induction pkgs arbitrary: s)
  case Nil
  then show ?case by simp
next
  case (Cons pkg pkgs)
  obtain v where "ver pkg = Inr v" using Cons.prems by auto
  then show ?case using Cons by simp
qed

lemma print_versions_cases:
  assumes "\<And>p. p \<in> set pkgs \<Longrightarrow> \<exists>v. ver p = Inr v"
  obtains s1 where "print_versions ver pkgs s = (Inr (), s1)"
  using print_versions_result [of pkgs ver s, OF assms]
  by (cases "print_versions ver pkgs s") auto

lemma uninstall_menu_inv:
  assumes "\<And>l. Q (Print l)" and "\<And>p. Q (Prompt p)"
    and "\<And>p. p \<in> set orphaned \<Longrightarrow> Q (Run (PipUninstall p))"
    and "list_all Q (trace s)"
  shows "list_all Q (trace (snd (uninstall_menu w ver orphaned s)))"
proof -
  let ?s0 = "py_print ''2. Uninstall specific package(s)''
                (py_print ''1. Uninstall all orphaned packages''
                   (py_print (CHR 0x0A # ''Choose an option:'') s))"
  obtain r s1 where inp: "py_input ''Enter 1 or 2: '' ?s0 = (r, s1)"
    by (cases "py_input ''Enter 1 or 2: '' ?s0")
  have q1: "list_all Q (trace s1)"
    using py_input_trace [OF inp] assms(1,2,4) by (simp add: py_print_trace)
  have c: "list_all Q (trace (snd (confirm_loop w ver orphaned s1)))"
    using confirm_loop_inv [of Q orphaned s1 w ver] assms(1,2,3) q1 by blast
  have sl: "list_all Q (trace (snd (select_loop w ver orphaned s1)))"
    using select_loop_inv [of Q orphaned s1 w ver] assms(1,2,3) q1 by blast
  show ?thesis
    using inp q1 c sl assms(1)
    by (auto simp: uninstall_menu_def Let_def py_print_trace split: sum.splits prod.splits)
qed

lemma uninstall_menu_result:
  assumes "\<And>p. p \<in> set orphaned \<Longrightarrow> \<exists>v. ver p = Inr v"
  shows "fst (uninstall_menu w ver orphaned s) = Inr ()
         \<or> fst (uninstall_menu w ver orphaned s) = Inl EOFError"
proof -
  let ?s0 = "py_print ''2. Uninstall specific package(s)''
                (py_print ''1. Uninstall all orphaned packages''
                   (py_print (CHR 0x0A # ''Choose an option:'') s))"
  obtain r s1 where inp: "py_input ''Enter 1 or 2: '' ?s0 = (r, s1)"
    by (cases "py_input ''Enter 1 or 2: '' ?s0")
  show ?thesis
    using inp py_input_result [OF inp] confirm_loop_result [of orphaned ver w s1, OF assms]
      select_loop_result [of orphaned ver w s1, OF assms]
    by (auto simp: uninstall_menu_def Let_def split: sum.splits prod.splits)
qed

lemma confirm_loop_world_fun: "confirm_loop w = confirm_loop w'"
  by (intro ext) (rule confirm_loop_world)

lemma select_loop_world_fun: "select_loop w = select_loop w'"
  by (intro ext) (rule select_loop_world)

lemma uninstall_menu_world: "uninstall_menu w ver orphaned s = uninstall_menu w' ver orphaned s"
  by (simp only: uninstall_menu_def confirm_loop_world_fun [of w w'] select_loop_world_fun [of w w'])

lemma orphaned_of_version:
  "p \<in> set (orphaned_of classified) \<Longrightarrow> \<exists>v. classified_version classified p = Inr v"
proof -
  assume "p \<in> set (orphaned_of classified)"
  then have "p \<in> fst ` set classified"
    by (auto simp: orphaned_of_def)
  then obtain info where "map_of classified p = Some info"
    by (metis domD dom_map_of_conv_image_fst)
  then show ?thesis
    by (simp add: classified_version_def subscript_def)
qed

lemma orphans_of_version:
  "p \<in> set (orphans_of required installed_packages) \<Longrightarrow> \<exists>v. subscript installed_packages p = Inr v"
proof -
  assume "p \<in> set (orphans_of required installed_packages)"
  then have "p \<in> fst ` set installed_packages"
    by (auto simp: orphans_of_def)
  then obtain v where "map_of installed_packages p = Some v"
    by (metis domD dom_map_of_conv_image_fst)
  then show ?thesis
    by (simp add: subscript_def)
qed

lemma interactive_uninstall_inv:
  assumes "\<And>l. Q (Print l)" and "\<And>p. Q (Prompt p)"
    and "\<And>p. p \<in> set (orphaned_of classified) \<Longrightarrow> Q (Run (PipUninstall p))"
    and "list_all Q (trace s)"
  shows "list_all Q (trace (snd (interactive_uninstall w classified s)))"
proof -
  let ?s0 = "py_print (CHR 0x0A # ''Orphaned packages safe to uninstall:'') s"
  let ?ver = "classified_version classified"
  obtain r1 s1 where pv: "print_versions ?ver (orphaned_of classified) ?s0 = (r1, s1)"
    by (cases "print_versions ?ver (orphaned_of classified) ?s0")
  have q1: "list_all Q (trace s1)"
    using print_versions_inv [of Q ?s0 ?ver "orphaned_of classified"] pv assms(1,4)
    by (simp add: py_print_trace)
  obtain r2 s2 where inp: "py_input (CHR 0x0A # ''Do you want to uninstall any of these packages? (y/n): '') s1 = (r2, s2)"
    by (cases "py_input (CHR 0x0A # ''Do you want to uninstall any of these packages? (y/n): '') s1")
  have q2: "list_all Q (trace s2)"
    using py_input_trace [OF inp] q1 assms(2) by simp
  have m: "list_all Q (trace (snd (uninstall_menu w ?ver (orphaned_of classified) s2)))"
    using uninstall_menu_inv [of Q "orphaned_of classified" s2 w ?ver] assms(1,2,3) q2 by blast
  show ?thesis
    using pv inp q1 q2 m assms(1,4)
    by (auto simp: interactive_uninstall_def Let_def py_print_trace split: sum.splits prod.splits)
qed

lemma interactive_uninstall_result:
  "fst (interactive_uninstall w classified s) = Inr ()
   \<or> fst (interactive_uninstall w classified s) = Inl EOFError"
proof -
  let ?s0 = "py_print (CHR 0x0A # ''Orphaned packages safe to uninstall:'') s"
  let ?ver = "classified_version classified"
  obtain s1 where pv: "print_versions ?ver (orphaned_of classified) ?s0 = (Inr (), s1)"
    using print_versions_cases [of "orphaned_of classified" ?ver ?s0] orphaned_of_version by blast
  obtain r2 s2 where inp: "py_input (CHR 0x0A # ''Do you want to uninstall any of these packages? (y/n): '') s1 = (r2, s2)"
    by (cases "py_input (CHR 0x0A # ''Do you want to uninstall any of these packages? (y/n): '') s1")
  show ?thesis
    using pv inp py_input_result [OF inp]
      uninstall_menu_result [of "orphaned_of classified" ?ver w s2] orphaned_of_version
    by (auto simp: interactive_uninstall_def Let_def split: sum.splits prod.splits)
qed

lemma uninstall_menu_world_fun: "uninstall_menu w = uninstall_menu w'"
  by (intro ext) (rule uninstall_menu_world)

lemma interactive_uninstall_world:
  "interactive_uninstall w classified s = interactive_uninstall w' classified s"
  by (simp only: interactive_uninstall_def uninstall_menu_world_fun [of w w'])

lemma fold_inv:
  assumes "\<And>x s. list_all Q (trace s) \<Longrightarrow> list_all Q (trace (g x s))"
  shows "list_all Q (trace s) \<Longrightarrow> list_all Q (trace (fold g xs s))"
  by (induction xs arbitrary: s) (simp_all add: assms)

lemma main_dialogue_inv:
  assumes "\<And>l. Q (Print l)" and "\<And>p. Q (Prompt p)"
    and "\<And>p. p \<in> set orphans \<Longrightarrow> Q (Run (PipUninstall p))"
    and "list_all Q (trace s)"
  shows "list_all Q (trace (snd (main_dialogue w orphans installed_packages s)))"
proof -
  let ?g = "\<lambda>(pkg, v). py_print ('' - '' @ pkg @ '' ('' @ v @ '')'')"
  let ?s1 = "fold ?g installed_packages (py_print (CHR 0x0A # ''Installed packages:'') s)"
  let ?s0 = "py_print (CHR 0x0A # ''Orphaned packages (not required by any other package):'') ?s1"
  let ?ver = "subscript installed_packages"
  have g: "list_all Q (trace s') \<Longrightarrow> list_all Q (trace (?g x s'))" for x s'
    using assms(1) by (cases x) (simp add: py_print_trace)
  have q00: "list_all Q (trace (py_print (CHR 0x0A # ''Installed packages:'') s))"
    using assms(1,4) by (simp add: py_print_trace)
  have q0: "list_all Q (trace ?s1)"
    using g q00 by (rule fold_inv)
  obtain r1 s1 where pv: "print_versions ?ver orphans ?s0 = (r1, s1)"
    by (cases "print_versions ?ver orphans ?s0")
  have q1: "list_all Q (trace s1)"
    using print_versions_inv [of Q ?s0 ?ver orphans] pv assms(1) q0
    by (simp add: py_print_trace)
  obtain r2 s2 where inp: "py_input (CHR 0x0A # ''Do you want to uninstall any of these packages? (y/n): '') s1 = (r2, s2)"
    by (cases "py_input (CHR 0x0A # ''Do you want to uninstall any of these packages? (y/n): '') s1")
  have q2: "list_all Q (trace s2)"
    using py_input_trace [OF inp] q1 assms(2) by simp
  have m: "list_all Q (trace (snd (uninstall_menu w ?ver orphans s2)))"
    using uninstall_menu_inv [of Q orphans s2 w ?ver] assms(1,2,3) q2 by blast
  show ?thesis
    using pv inp q0 q1 q2 m assms(1)
    by (auto simp: main_dialogue_def Let_def py_print_trace split: sum.splits prod.splits)
qed

lemma main_dialogue_result:
  assumes "\<And>p. p \<in> set orphans \<Longrightarrow> \<exists>v. subscript installed_packages p = Inr v"
  shows "fst (main_dialogue w orphans installed_packages s) \<in> {Inr (), Inl EOFError, Inl SystemExit}"
proof -
  let ?s1 = "fold (\<lambda>(pkg, v). py_print ('' - '' @ pkg @ '' ('' @ v @ '')''))
                 installed_packages
                 (py_print (CHR 0x0A # ''Installed packages:'') s)"
  let ?s0 = "py_print (CHR 0x0A # ''Orphaned packages (not required by any other package):'') ?s1"
  let ?ver = "subscript installed_packages"
  obtain s1 where pv: "print_versions ?ver orphans ?s0 = (Inr (), s1)"
    using print_versions_cases [of orphans ?ver ?s0] assms by blast
  obtain r2 s2 where inp: "py_input (CHR 0x0A # ''Do you want to uninstall any of these packages? (y/n): '') s1 = (r2, s2)"
    by (cases "py_input (CHR 0x0A # ''Do you want to uninstall any of these packages? (y/n): '') s1")
  show ?thesis
    using pv inp py_input_result [OF inp] uninstall_menu_result [of orphans ?ver w s2, OF assms]
    by (auto simp: main_dialogue_def Let_def split: sum.splits prod.splits)
qed

lemma main_dialogue_world:
  "main_dialogue w orphans installed_packages s = main_dialogue w' orphans installed_packages s"
  by (simp only: main_dialogue_def uninstall_menu_world_fun [of w w'])


lemma prefix_snoc_trans: "prefix (xs @ [x]) ys \<Longrightarrow> prefix xs ys"
  by (metis append_prefixD)

lemma confirm_loop_mono: "prefix (trace s) (trace (snd (confirm_loop w ver pkgs s)))"
proof (induction pkgs arbitrary: s)
  case Nil
  then show ?case by simp
next
  case (Cons pkg pkgs)
  show ?case
  proof (cases "ver pkg")
    case (Inl e)
    then show ?thesis by simp
  next
    case (Inr v)
    obtain r s1 where inp: "py_input (''Do you want to uninstall '' @ pkg @ '' ('' @ v @ '')? (y/n): '') s = (r, s1)"
      by (cases "py_input (''Do you want to uninstall '' @ pkg @ '' ('' @ v @ '')? (y/n): '') s")
    note t1 = py_input_trace [OF inp]
    show ?thesis
    proof (cases r)
      case (Inl e)
      with Inr inp t1 show ?thesis by simp
    next
      case rl: (Inr line)
      show ?thesis
      proof (cases "lower (strip line) = ''y''")
        case True
        let ?s2 = "s1\<lparr>trace := trace s1 @ [Print (CHR 0x0A # ''Uninstalling '' @ pkg @ ''...''),
                                       Run (PipUninstall pkg)]\<rparr>"
        have "prefix (trace ?s2) (trace (snd (confirm_loop w ver pkgs ?s2)))"
          by (rule Cons.IH)
        then have "prefix (trace s) (trace (snd (confirm_loop w ver pkgs ?s2)))"
          using t1 by (simp add: append_prefixD)
        with Inr inp rl True show ?thesis
          by (simp add: uninstall_package_eq)
      next
        case False
        have "prefix (trace s1) (trace (snd (confirm_loop w ver pkgs s1)))"
          by (rule Cons.IH)
        then have "prefix (trace s) (trace (snd (confirm_loop w ver pkgs s1)))"
          using t1 by (simp add: append_prefixD)
        with Inr inp rl False show ?thesis
          by simp
      qed
    qed
  qed
qed

lemma select_loop_prompts:
  "prefix (trace s @ [Prompt ''Enter package name(s) to uninstall (comma separated), or 'q' to quit: ''])
          (trace (snd (select_loop w ver orphaned s)))"
proof (induction "length (stdin s)" arbitrary: s rule: less_induct)
  case less
  let ?P = "''Enter package name(s) to uninstall (comma separated), or 'q' to quit: ''"
  show ?case
  proof (cases rule: select_loop_round [where s = s and ver = ver and orphaned = orphaned and w = w])
    case (eof e s1)
    then show ?thesis using py_input_trace [OF eof(1)] by simp
  next
    case (quit line s1)
    then show ?thesis using py_input_trace [OF quit(1)] by simp
  next
    case (none line s1)
    let ?s' = "py_print ''No valid packages selected. Try again.'' s1"
    have "prefix (trace ?s' @ [Prompt ?P]) (trace (snd (select_loop w ver orphaned ?s')))"
      using less none(4) by blast
    then have "prefix (trace s1) (trace (snd (select_loop w ver orphaned ?s')))"
      by (simp add: py_print_trace append_prefixD)
    then show ?thesis
      using none(5) py_input_trace [OF none(1)] by simp
  next
    case (failed line s1 e s2)
    have "prefix (trace s1) (trace s2)"
      using confirm_loop_mono [of s1 w ver "selected_of orphaned (strip line)"] failed(4) by simp
    then show ?thesis
      using failed(5) py_input_trace [OF failed(1)] by simp
  next
    case (eof_more line s1 s2 e s3)
    have "prefix (trace s1) (trace s2)"
      using confirm_loop_mono [of s1 w ver "selected_of orphaned (strip line)"] eof_more(4) by simp
    then have "prefix (trace s1) (trace s3)"
      using py_input_trace [OF eof_more(5)] by (auto simp: prefix_def)
    then show ?thesis
      using eof_more(6) py_input_trace [OF eof_more(1)] by simp
  next
    case (stop line s1 s2 more' s3)
    have "prefix (trace s1) (trace s2)"
      using confirm_loop_mono [of s1 w ver "selected_of orphaned (strip line)"] stop(4) by simp
    then have "prefix (trace s1) (trace s3)"
      using py_input_trace [OF stop(5)] by (auto simp: prefix_def)
    then show ?thesis
      using stop(7) py_input_trace [OF stop(1)] by simp
  next
    case (again line s1 s2 more' s3)
    have "prefix (trace s1) (trace s2)"
      using confirm_loop_mono [of s1 w ver "selected_of orphaned (strip line)"] again(4) by simp
    then have a: "prefix (trace s1) (trace s3)"
      using py_input_trace [OF again(5)] by (auto simp: prefix_def)
    have "prefix (trace s3 @ [Prompt ?P]) (trace (snd (select_loop w ver orphaned s3)))"
      using less again(7) by blast
    then have "prefix (trace s3) (trace (snd (select_loop w ver orphaned s3)))"
      by (simp add: append_prefixD)
    with a have "prefix (trace s1) (trace (snd (select_loop w ver orphaned s3)))"
      by (rule prefix_order.trans)
    then show ?thesis
      using again(8) py_input_trace [OF again(1)] by simp
  qed
qed

lemma select_loop_uninstalled:
  "set (uninstalled (trace (snd (select_loop w ver orphaned s))))
     \<subseteq> set (uninstalled (trace s)) \<union> set orphaned"
proof -
  let ?Q = "\<lambda>e. \<forall>p. e = Run (PipUninstall p) \<longrightarrow> p \<in> set (uninstalled (trace s)) \<union> set orphaned"
  have "list_all ?Q (trace (snd (select_loop w ver orphaned s)))"
  proof (rule select_loop_inv)
    show "list_all ?Q (trace s)" by (rule uninstalled_inv_start)
  qed simp_all
  then show ?thesis
    by (simp only: uninstalled_subset)
qed


section \<open>The bulk branch\<close>

text \<open>The bulk branch on two candidates, for any two answers.\<close>

lemma bulk_two:
  assumes "stdin s = option # ax # ay # rest" and "strip option = ''1''"
    and "ver X = Inr vx" and "ver Y = Inr vy"
  shows "fst (uninstall_menu w ver [X, Y] s) = Inr ()
         \<and> uninstalled (trace (snd (uninstall_menu w ver [X, Y] s)))
             = uninstalled (trace s)
               @ (if strip ax \<in> {''y'', ''Y''} then [X] else [])
               @ (if strip ay \<in> {''y'', ''Y''} then [Y] else [])"
  using assms
  by (simp add: uninstall_menu_def py_input_def py_print_def uninstall_package_eq
        uninstalled_append lower_y Let_def)

lemma interactive_bulk_two:
  assumes "orphaned_of classified = [X, Y]"
    and "stdin s = choice # option # ax # ay # rest"
    and "lower (strip choice) = ''y''" and "strip option = ''1''"
  shows "fst (interactive_uninstall w classified s) = Inr ()
         \<and> uninstalled (trace (snd (interactive_uninstall w classified s)))
             = uninstalled (trace s)
               @ (if strip ax \<in> {''y'', ''Y''} then [X] else [])
               @ (if strip ay \<in> {''y'', ''Y''} then [Y] else [])"
proof -
  obtain vx where vx: "classified_version classified X = Inr vx"
    using orphaned_of_version [of X classified] assms(1) by auto
  obtain vy where vy: "classified_version classified Y = Inr vy"
    using orphaned_of_version [of Y classified] assms(1) by auto
  let ?s2 = "s\<lparr>stdin := option # ax # ay # rest,
                trace := trace s @ [Print (CHR 0x0A # ''Orphaned packages safe to uninstall:''),
                                    Print ('' - '' @ X @ '' ('' @ vx @ '')''),
                                    Print ('' - '' @ Y @ '' ('' @ vy @ '')''),
                                    Prompt (CHR 0x0A # ''Do you want to uninstall any of these packages? (y/n): '')]\<rparr>"
  have step: "interactive_uninstall w classified s
                = uninstall_menu w (classified_version classified) [X, Y] ?s2"
    using assms vx vy by (simp add: interactive_uninstall_def py_print_def py_input_def Let_def)
  show ?thesis
    unfolding step
    using bulk_two [of ?s2 option ax ay rest "classified_version classified" X vx Y vy w] assms(4) vx vy
    by (simp add: uninstalled_append)
qed

lemma fold_stdin:
  assumes "\<And>x s. stdin (g x s) = stdin s"
  shows "stdin (fold g xs s) = stdin s"
  by (induction xs arbitrary: s) (simp_all add: assms)

lemma fold_uninstalled:
  assumes "\<And>x s. uninstalled (trace (g x s)) = uninstalled (trace s)"
  shows "uninstalled (trace (fold g xs s)) = uninstalled (trace s)"
  by (induction xs arbitrary: s) (simp_all add: assms)

lemma main_bulk_two:
  assumes "subscript installed_packages X = Inr vx" and "subscript installed_packages Y = Inr vy"
    and "stdin s = choice # option # ax # ay # rest"
    and "lower (strip choice) = ''y''" and "strip option = ''1''"
  shows "fst (main_dialogue w [X, Y] installed_packages s) = Inr ()
         \<and> uninstalled (trace (snd (main_dialogue w [X, Y] installed_packages s)))
             = uninstalled (trace s)
               @ (if strip ax \<in> {''y'', ''Y''} then [X] else [])
               @ (if strip ay \<in> {''y'', ''Y''} then [Y] else [])"
proof -
  let ?g = "\<lambda>(pkg, v). py_print ('' - '' @ pkg @ '' ('' @ v @ '')'')"
  define s1 where "s1 = fold ?g installed_packages (py_print (CHR 0x0A # ''Installed packages:'') s)"
  have in1: "stdin s1 = stdin s"
    unfolding s1_def by (subst fold_stdin) (auto simp: py_print_def)
  have un1: "uninstalled (trace s1) = uninstalled (trace s)"
    unfolding s1_def by (subst fold_uninstalled) (auto simp: py_print_def uninstalled_append)
  let ?s2 = "s1\<lparr>stdin := option # ax # ay # rest,
                trace := trace s1 @ [Print (CHR 0x0A # ''Orphaned packages (not required by any other package):''),
                                    Print ('' - '' @ X @ '' ('' @ vx @ '')''),
                                    Print ('' - '' @ Y @ '' ('' @ vy @ '')''),
                                    Prompt (CHR 0x0A # ''Do you want to uninstall any of these packages? (y/n): '')]\<rparr>"
  have step: "main_dialogue w [X, Y] installed_packages s
                = uninstall_menu w (subscript installed_packages) [X, Y] ?s2"
    unfolding main_dialogue_def Let_def s1_def [symmetric]
    using assms in1 by (simp add: py_print_def py_input_def)
  show ?thesis
    unfolding step
    using bulk_two [of ?s2 option ax ay rest "subscript installed_packages" X vx Y vy w] assms(1,2,5) un1
    by (simp add: uninstalled_append)
qed

text \<open>
  Claim C6. In the bulk branch over two candidates \<open>X\<close> and \<open>Y\<close>, in that order, when
  the answer for \<open>X\<close> is affirmative and the answer for \<open>Y\<close> is not, the run ends
  normally and its only uninstall subprocess is the one for \<open>X\<close>; this holds for the
  dialogue of \<open>python_package_cleaner.py\<close> and for that of \<open>main.py\<close>. An answer is
  affirmative exactly when, stripped, it is \<open>y\<close> or \<open>Y\<close>; with any two answers the
  uninstalls are those of the candidates whose answer is affirmative.
\<close>

theorem bulk_uninstall_one_of_two:
  assumes "orphaned_of classified = [X, Y]"
    and "subscript installed_packages X = Inr vx" and "subscript installed_packages Y = Inr vy"
    and "lower (strip choice) = ''y''" and "strip option = ''1''"
  shows "(lower (strip ax) = ''y'' \<and> lower (strip ay) \<noteq> ''y'' \<longrightarrow>
            fst (interactive_uninstall w classified \<lparr>stdin = [choice, option, ax, ay], trace = []\<rparr>) = Inr ()
            \<and> uninstalled (trace (snd (interactive_uninstall w classified
                  \<lparr>stdin = [choice, option, ax, ay], trace = []\<rparr>))) = [X]
            \<and> fst (main_dialogue w [X, Y] installed_packages
                  \<lparr>stdin = [choice, option, ax, ay], trace = []\<rparr>) = Inr ()
            \<and> uninstalled (trace (snd (main_dialogue w [X, Y] installed_packages
                  \<lparr>stdin = [choice, option, ax, ay], trace = []\<rparr>))) = [X])
         \<and> (lower (strip ax) = ''y'' \<longleftrightarrow> strip ax = ''y'' \<or> strip ax = ''Y'')
         \<and> uninstalled (trace (snd (interactive_uninstall w classified
               \<lparr>stdin = [choice, option, ax, ay], trace = []\<rparr>)))
             = (if lower (strip ax) = ''y'' then [X] else []) @ (if lower (strip ay) = ''y'' then [Y] else [])
         \<and> uninstalled (trace (snd (main_dialogue w [X, Y] installed_packages
               \<lparr>stdin = [choice, option, ax, ay], trace = []\<rparr>)))
             = (if lower (strip ax) = ''y'' then [X] else []) @ (if lower (strip ay) = ''y'' then [Y] else [])"
proof -
  let ?s = "\<lparr>stdin = [choice, option, ax, ay], trace = []\<rparr>"
  have i: "fst (interactive_uninstall w classified ?s) = Inr ()
           \<and> uninstalled (trace (snd (interactive_uninstall w classified ?s)))
               = (if lower (strip ax) = ''y'' then [X] else []) @ (if lower (strip ay) = ''y'' then [Y] else [])"
    using interactive_bulk_two [of classified X Y ?s choice option ax ay "[]" w] assms(1,4,5)
    by (simp add: lower_y)
  have m: "fst (main_dialogue w [X, Y] installed_packages ?s) = Inr ()
           \<and> uninstalled (trace (snd (main_dialogue w [X, Y] installed_packages ?s)))
               = (if lower (strip ax) = ''y'' then [X] else []) @ (if lower (strip ay) = ''y'' then [Y] else [])"
    using main_bulk_two [of installed_packages X vx Y vy ?s choice option ax ay "[]" w] assms(2,3,4,5)
    by (simp add: lower_y)
  show ?thesis
    using i m by (simp add: lower_y)
qed

theorem bulk_uninstall_one_of_two_witness:
  "fst (interactive_uninstall world_example classified_two
          \<lparr>stdin = ['' Y '', ''1 '', ''y'', ''n''], trace = []\<rparr>) = Inr ()
   \<and> uninstalled (trace (snd (interactive_uninstall world_example classified_two
          \<lparr>stdin = ['' Y '', ''1 '', ''y'', ''n''], trace = []\<rparr>))) = [''flask'']
   \<and> uninstalled (trace (snd (main_dialogue world_example [''flask'', ''six''] installed_two
          \<lparr>stdin = ['' Y '', ''1 '', ''y'', ''n''], trace = []\<rparr>))) = [''flask'']"
proof -
  have o: "orphaned_of classified_two = [''flask'', ''six'']"
    by (simp add: orphaned_of_def classified_two_def)
  have vx: "subscript installed_two ''flask'' = Inr ''3.0''"
    and vy: "subscript installed_two ''six'' = Inr ''1.16''"
    by (simp_all add: subscript_def installed_two_def)
  have c: "lower (strip '' Y '') = ''y''"
    by (simp add: lower_y strip_def isspace_simps)
  have p: "strip ''1 '' = ''1''"
    by (simp add: strip_def isspace_simps)
  have a: "lower (strip ''y'') = ''y'' \<and> lower (strip ''n'') \<noteq> ''y''"
    by (simp add: lower_y strip_def isspace_simps)
  show ?thesis
    using bulk_uninstall_one_of_two [OF o vx vy c p, of "''y''" "''n''" world_example] a
    by simp
qed


section \<open>The selective branch\<close>

text \<open>One round of the selective loop on a line that is not the quit token.\<close>

lemma select_loop_step:
  assumes "stdin s = line # rest" and "lower (strip line) \<noteq> ''q''"
  shows "select_loop w ver orphaned s =
     (let s1 = s\<lparr>stdin := rest,
                  trace := trace s @ [Prompt ''Enter package name(s) to uninstall (comma separated), or 'q' to quit: '']\<rparr>;
          selected = selected_of orphaned (strip line)
      in if selected = [] then
           select_loop w ver orphaned (py_print ''No valid packages selected. Try again.'' s1)
         else
           (case confirm_loop w ver selected s1 of
              (Inl e, s2) \<Rightarrow> (Inl e, s2)
            | (Inr _, s2) \<Rightarrow>
                (case py_input (CHR 0x0A # ''Do you want to uninstall more packages? (y/n): '') s2 of
                   (Inl e, s3) \<Rightarrow> (Inl e, s3)
                 | (Inr more', s3) \<Rightarrow>
                     if lower (strip more') \<noteq> ''y'' then (Inr (), s3)
                     else select_loop w ver orphaned s3)))"
  using assms by (subst select_loop.simps) (simp add: py_input_def Let_def)

text \<open>
  Claim C7. In a round of the selective loop (on a line that is not the quit token) the
  selection is a sublist of the candidates; when every entered name is invalid the selection
  is empty; when the selection is empty the loop prints the message that no valid packages
  were selected and goes on with the next round, whose first event is the prompt again; two
  lines with the same selection lead to the same run, so the discarded names leave no trace;
  and no uninstall of the loop is for a name outside the candidates.
\<close>

theorem selective_round_filters:
  assumes "stdin s = line # rest" and "lower (strip line) \<noteq> ''q''"
  shows "set (selected_of orphaned (strip line)) \<subseteq> set orphaned
     \<and> ((\<forall>p \<in> set (map strip (split_comma (strip line))). p \<notin> set orphaned) \<longrightarrow>
           selected_of orphaned (strip line) = [])
     \<and> (selected_of orphaned (strip line) = [] \<longrightarrow>
           select_loop w ver orphaned s
             = select_loop w ver orphaned
                 (s\<lparr>stdin := rest,
                    trace := trace s @
                      [Prompt ''Enter package name(s) to uninstall (comma separated), or 'q' to quit: '',
                       Print ''No valid packages selected. Try again.'']\<rparr>)
           \<and> prefix (trace s @
                      [Prompt ''Enter package name(s) to uninstall (comma separated), or 'q' to quit: '',
                       Print ''No valid packages selected. Try again.'',
                       Prompt ''Enter package name(s) to uninstall (comma separated), or 'q' to quit: ''])
                 (trace (snd (select_loop w ver orphaned s))))
     \<and> (\<forall>line'. lower (strip line') \<noteq> ''q''
            \<and> selected_of orphaned (strip line') = selected_of orphaned (strip line) \<longrightarrow>
            select_loop w ver orphaned (s\<lparr>stdin := line' # rest\<rparr>) = select_loop w ver orphaned s)
     \<and> set (uninstalled (trace (snd (select_loop w ver orphaned s))))
           \<subseteq> set (uninstalled (trace s)) \<union> set orphaned"
proof (intro conjI impI allI)
  let ?P = "''Enter package name(s) to uninstall (comma separated), or 'q' to quit: ''"
  let ?M = "''No valid packages selected. Try again.''"
  let ?s' = "s\<lparr>stdin := rest, trace := trace s @ [Prompt ?P, Print ?M]\<rparr>"
  show "set (selected_of orphaned (strip line)) \<subseteq> set orphaned"
    by (rule selected_of_subset)
  show "selected_of orphaned (strip line) = []"
    if "\<forall>p \<in> set (map strip (split_comma (strip line))). p \<notin> set orphaned"
    using that by (simp add: selected_of_def filter_empty_conv)
  show again: "select_loop w ver orphaned s = select_loop w ver orphaned ?s'"
    if "selected_of orphaned (strip line) = []"
    using that by (simp add: select_loop_step [OF assms] py_print_def)
  show "prefix (trace s @ [Prompt ?P, Print ?M, Prompt ?P]) (trace (snd (select_loop w ver orphaned s)))"
    if "selected_of orphaned (strip line) = []"
    using select_loop_prompts [of ?s' w ver orphaned] again [OF that] by simp
  show "select_loop w ver orphaned (s\<lparr>stdin := line' # rest\<rparr>) = select_loop w ver orphaned s"
    if "lower (strip line') \<noteq> ''q''
        \<and> selected_of orphaned (strip line') = selected_of orphaned (strip line)" for line'
  proof -
    have "stdin (s\<lparr>stdin := line' # rest\<rparr>) = line' # rest"
      by simp
    from select_loop_step [OF this, of w ver orphaned] that
    show ?thesis
      by (simp add: select_loop_step [OF assms])
  qed
  show "set (uninstalled (trace (snd (select_loop w ver orphaned s))))
          \<subseteq> set (uninstalled (trace s)) \<union> set orphaned"
    by (rule select_loop_uninstalled)
qed

theorem selective_round_filters_witness:
  "select_loop world_example (classified_version classified_two) [''flask'', ''six'']
     \<lparr>stdin = [''numpy, requests'', ''q''], trace = []\<rparr>
   = (Inr (),
      \<lparr>stdin = [],
       trace = [Prompt ''Enter package name(s) to uninstall (comma separated), or 'q' to quit: '',
                Print ''No valid packages selected. Try again.'',
                Prompt ''Enter package name(s) to uninstall (comma separated), or 'q' to quit: '']\<rparr>)"
proof -
  let ?s = "\<lparr>stdin = [''numpy, requests'', ''q''], trace = []\<rparr>"
  have st: "strip ''numpy, requests'' = ''numpy, requests''"
    by (simp add: strip_def isspace_def)
  have i: "stdin ?s = ''numpy, requests'' # [''q'']"
    by simp
  have nq: "lower (strip ''numpy, requests'') \<noteq> ''q''"
    by (simp add: st lower_def)
  have sel: "selected_of [''flask'', ''six''] (strip ''numpy, requests'') = []"
    by (simp add: st selected_of_def strip_def isspace_def)
  have q: "lower (strip ''q'') = ''q''"
    by (simp add: strip_def isspace_def lower_def lower_char_def)
  note t = selective_round_filters [OF i nq, of "[''flask'', ''six'']" world_example
      "classified_version classified_two", THEN conjunct2, THEN conjunct2, THEN conjunct1,
      THEN mp, OF sel, THEN conjunct1]
  show ?thesis
    unfolding t
    by (subst select_loop.simps) (simp add: py_input_def q)
qed


section \<open>Making the dependency-tree tool available\<close>

lemma ensure_pipdeptree_found:
  "exit_status w (trace s) PipdeptreeVersion = 0 \<Longrightarrow>
   ensure_pipdeptree w s = (Inr (), s\<lparr>trace := trace s @ [Run PipdeptreeVersion]\<rparr>)"
  by (simp add: ensure_pipdeptree_def subprocess_run_def Let_def)

lemma ensure_pipdeptree_install_fails:
  "exit_status w (trace s) PipdeptreeVersion \<noteq> 0 \<Longrightarrow>
   exit_status w (trace s @ [Run PipdeptreeVersion, Print ''pipdeptree not found. Installing...''])
     PipInstallPipdeptree \<noteq> 0 \<Longrightarrow>
   ensure_pipdeptree w s =
     (Inl CalledProcessError,
      s\<lparr>trace := trace s @ [Run PipdeptreeVersion, Print ''pipdeptree not found. Installing...'',
                             Run PipInstallPipdeptree]\<rparr>)"
  by (simp add: ensure_pipdeptree_def subprocess_run_def py_print_def Let_def)

lemma ensure_pipdeptree_missing:
  "exit_status w (trace s) PipdeptreeVersion \<noteq> 0 \<Longrightarrow>
   prefix (trace s @ [Run PipdeptreeVersion, Print ''pipdeptree not found. Installing...'',
                      Run PipInstallPipdeptree])
     (trace (snd (ensure_pipdeptree w s)))"
  by (simp add: ensure_pipdeptree_def subprocess_run_def py_print_def Let_def prefix_def)

lemma get_installed_packages_trace:
  "trace (snd (get_installed_packages w s)) = trace s @ [Run PipListVerbose]"
  by (simp add: get_installed_packages_def subprocess_run_def Let_def split: option.splits)

lemma get_dependency_tree_trace:
  "trace (snd (get_dependency_tree w s)) = trace s @ [Run PipdeptreeJson]"
  by (simp add: get_dependency_tree_def subprocess_run_def Let_def split: option.splits)

lemma classify_packages_trace:
  "trace (snd (classify_packages w installed_packages s)) = trace s @ [Run PipdeptreeJson]"
  using get_dependency_tree_trace [of w s]
  by (cases "get_dependency_tree w s"; cases "fst (get_dependency_tree w s)")
    (auto simp: classify_packages_def)

lemma display_packages_inv:
  assumes "\<And>l. Q (Print l)" and "list_all Q (trace s)"
  shows "list_all Q (trace (display_packages classified s))"
proof -
  let ?g = "\<lambda>(pkg, info). py_print
             (ljust 20 pkg @ '' '' @ ljust 10 (c_version info) @ '' '' @ used_by info)"
  have g: "list_all Q (trace s') \<Longrightarrow> list_all Q (trace (?g x s'))" for x :: "string \<times> class_entry" and s'
    using assms(1) by (cases x) (simp add: py_print_trace)
  have q0: "list_all Q (trace (py_print (replicate 50 CHR ''-'')
          (py_print (ljust 20 ''Package'' @ '' '' @ ljust 10 ''Version'' @ '' '' @ ''Used By'') s)))"
    using assms by (simp add: py_print_trace)
  show ?thesis
    unfolding display_packages_def using g q0 by (rule fold_inv)
qed

text \<open>After the probe has succeeded, no event of the script is the installation of the
  tool.\<close>

lemma cleaner_script_no_install:
  assumes "exit_status w (trace s) PipdeptreeVersion = 0"
    and "Run PipInstallPipdeptree \<notin> set (trace s)"
  shows "Run PipInstallPipdeptree \<notin> set (trace (snd (cleaner_script w s)))"
proof -
  let ?Q = "\<lambda>e. e \<noteq> Run PipInstallPipdeptree"
  let ?s1 = "py_print ''Scanning installed packages...'' (s\<lparr>trace := trace s @ [Run PipdeptreeVersion]\<rparr>)"
  have q0: "list_all ?Q (trace s)"
    using assms(2) by (auto simp: list_all_iff)
  then have q1: "list_all ?Q (trace ?s1)"
    by (simp add: py_print_trace)
  obtain r2 s2 where g: "get_installed_packages w ?s1 = (r2, s2)"
    by (cases "get_installed_packages w ?s1")
  have q2: "list_all ?Q (trace s2)"
    using get_installed_packages_trace [of w ?s1] g q1 by simp
  have q4: "list_all ?Q (trace s3) \<Longrightarrow>
            list_all ?Q (trace (snd (interactive_uninstall w c (display_packages c s3))))" for c s3
    by (rule interactive_uninstall_inv) (simp_all add: display_packages_inv)
  have "list_all ?Q (trace (snd (cleaner_script w s)))"
  proof (cases r2)
    case (Inl e)
    with g q2 show ?thesis
      by (simp add: cleaner_script_def ensure_pipdeptree_found [OF assms(1)])
  next
    case (Inr I)
    obtain r3 s3 where c: "classify_packages w I s2 = (r3, s3)"
      by (cases "classify_packages w I s2")
    have q3: "list_all ?Q (trace s3)"
      using classify_packages_trace [of w I s2] c q2 by simp
    show ?thesis
      using g Inr c q3 q4 [OF q3]
      by (cases r3) (simp_all add: cleaner_script_def ensure_pipdeptree_found [OF assms(1)])
  qed
  then show ?thesis
    by (auto simp: list_all_iff)
qed

lemma cleaner_script_aborts:
  assumes "exit_status w (trace s) PipdeptreeVersion \<noteq> 0"
    and "exit_status w (trace s @ [Run PipdeptreeVersion, Print ''pipdeptree not found. Installing...''])
           PipInstallPipdeptree \<noteq> 0"
  shows "cleaner_script w s =
     (Inl CalledProcessError,
      s\<lparr>trace := trace s @ [Run PipdeptreeVersion, Print ''pipdeptree not found. Installing...'',
                             Run PipInstallPipdeptree]\<rparr>)"
  by (simp add: cleaner_script_def ensure_pipdeptree_install_fails [OF assms])

text \<open>
  Claim C8. \<open>ensure_pipdeptree\<close> starts the installation of the tool only when the
  version probe fails: when the probe succeeds its only event is the probe, and no later
  event of the script is an installation; when the probe fails the installation follows.
  When the installation fails as well, the error leaves \<open>ensure_pipdeptree\<close> and the
  script uncaught, and the script has run nothing else: no listing of the installed packages
  and no query of the dependency tree.
\<close>

theorem ensure_pipdeptree_installs_only_when_missing:
  "(exit_status w (trace s) PipdeptreeVersion = 0 \<longrightarrow>
      ensure_pipdeptree w s = (Inr (), s\<lparr>trace := trace s @ [Run PipdeptreeVersion]\<rparr>)
      \<and> (Run PipInstallPipdeptree \<notin> set (trace s) \<longrightarrow>
           Run PipInstallPipdeptree \<notin> set (trace (snd (cleaner_script w s)))))
   \<and> (exit_status w (trace s) PipdeptreeVersion \<noteq> 0 \<longrightarrow>
        prefix (trace s @ [Run PipdeptreeVersion, Print ''pipdeptree not found. Installing...'',
                           Run PipInstallPipdeptree])
          (trace (snd (ensure_pipdeptree w s))))
   \<and> (exit_status w (trace s) PipdeptreeVersion \<noteq> 0
        \<and> exit_status w (trace s @ [Run PipdeptreeVersion, Print ''pipdeptree not found. Installing...''])
             PipInstallPipdeptree \<noteq> 0 \<longrightarrow>
        ensure_pipdeptree w s =
          (Inl CalledProcessError,
           s\<lparr>trace := trace s @ [Run PipdeptreeVersion, Print ''pipdeptree not found. Installing...'',
                                  Run PipInstallPipdeptree]\<rparr>)
        \<and> cleaner_script w s =
          (Inl CalledProcessError,
           s\<lparr>trace := trace s @ [Run PipdeptreeVersion, Print ''pipdeptree not found. Installing...'',
                                  Run PipInstallPipdeptree]\<rparr>))"
  using ensure_pipdeptree_found [of w s] cleaner_script_no_install [of w s]
    ensure_pipdeptree_missing [of w s] ensure_pipdeptree_install_fails [of w s]
    cleaner_script_aborts [of w s]
  by blast

theorem ensure_pipdeptree_installs_only_when_missing_witness:
  "cleaner_script world_no_tool \<lparr>stdin = [], trace = []\<rparr> =
     (Inl CalledProcessError,
      \<lparr>stdin = [],
       trace = [Run PipdeptreeVersion, Print ''pipdeptree not found. Installing...'',
                Run PipInstallPipdeptree]\<rparr>)
   \<and> ensure_pipdeptree world_example \<lparr>stdin = [], trace = []\<rparr>
       = (Inr (), \<lparr>stdin = [], trace = [Run PipdeptreeVersion]\<rparr>)
   \<and> Run PipInstallPipdeptree \<notin> set (trace (snd (cleaner_script world_example \<lparr>stdin = [], trace = []\<rparr>)))"
proof -
  have a: "exit_status world_no_tool (trace \<lparr>stdin = [], trace = []\<rparr>) PipdeptreeVersion \<noteq> 0
     \<and> exit_status world_no_tool
         (trace \<lparr>stdin = [], trace = []\<rparr> @ [Run PipdeptreeVersion, Print ''pipdeptree not found. Installing...''])
         PipInstallPipdeptree \<noteq> 0"
    by (simp add: world_no_tool_def)
  have b: "exit_status world_example (trace \<lparr>stdin = [], trace = []\<rparr>) PipdeptreeVersion = 0"
    by (simp add: world_example_def)
  show ?thesis
    using ensure_pipdeptree_installs_only_when_missing [of world_no_tool "\<lparr>stdin = [], trace = []\<rparr>"]
      ensure_pipdeptree_installs_only_when_missing [of world_example "\<lparr>stdin = [], trace = []\<rparr>"]
      a b
    by simp
qed


section \<open>Uninstalling does not look at the exit status\<close>

lemma interactive_uninstall_world_fun: "interactive_uninstall w = interactive_uninstall w'"
  by (intro ext) (rule interactive_uninstall_world)

lemma main_dialogue_world_fun: "main_dialogue w = main_dialogue w'"
  by (intro ext) (rule main_dialogue_world)

text \<open>Two worlds that differ only in the exit status of the uninstall subprocesses give the
  same run of either script.\<close>

lemma scripts_world:
  assumes ex: "\<And>tr c. (\<forall>p. c \<noteq> PipUninstall p) \<Longrightarrow> exit_status w tr c = exit_status w' tr c"
    and l: "list_stdout w = list_stdout w'" and t: "tree_stdout w = tree_stdout w'"
  shows "cleaner_script w s = cleaner_script w' s" and "main_script w s = main_script w' s"
proof -
  have sr: "subprocess_run check c w = subprocess_run check c w'" if "\<forall>p. c \<noteq> PipUninstall p" for check c
    using ex [OF that] by (intro ext) (simp add: subprocess_run_def)
  have s1: "subprocess_run check PipdeptreeVersion w = subprocess_run check PipdeptreeVersion w'"
    and s2: "subprocess_run check PipInstallPipdeptree w = subprocess_run check PipInstallPipdeptree w'"
    and s3: "subprocess_run check PipListVerbose w = subprocess_run check PipListVerbose w'"
    and s4: "subprocess_run check PipList w = subprocess_run check PipList w'"
    and s5: "subprocess_run check PipdeptreeJson w = subprocess_run check PipdeptreeJson w'" for check
    by (simp_all add: sr)
  have e: "ensure_pipdeptree w = ensure_pipdeptree w'"
    by (intro ext) (simp only: ensure_pipdeptree_def s1 s2)
  have g: "get_installed_packages w = get_installed_packages w'"
    by (intro ext) (simp only: get_installed_packages_def s3 l)
  have d: "get_dependency_tree w = get_dependency_tree w'"
    by (intro ext) (simp only: get_dependency_tree_def s5 t)
  have c: "classify_packages w = classify_packages w'"
    by (intro ext) (simp only: classify_packages_def d)
  have m: "main_get_installed_packages w = main_get_installed_packages w'"
    by (intro ext) (simp only: main_get_installed_packages_def s4 l)
  have f: "find_orphans w = find_orphans w'"
    by (intro ext) (simp only: find_orphans_def m d)
  show "cleaner_script w s = cleaner_script w' s"
    by (simp only: cleaner_script_def e g c interactive_uninstall_world_fun [of w w'])
  show "main_script w s = main_script w' s"
    by (simp only: main_script_def f main_dialogue_world_fun [of w w'])
qed

text \<open>
  Claim C9. \<open>uninstall_package\<close> never raises and what it returns and records does not
  mention the exit status of the subprocess; the confirmation loop, the selective loop and
  both dialogues are the same in any two worlds, and either script is the same in two worlds
  that differ only in the exit status of the uninstall subprocesses. So a failed uninstall
  is not told apart from a successful one and ends neither the loop nor the program.
\<close>

theorem uninstall_fire_and_forget:
  "uninstall_package w pkg_name s =
     (Inr (), s\<lparr>trace := trace s @ [Print (CHR 0x0A # ''Uninstalling '' @ pkg_name @ ''...''),
                                       Run (PipUninstall pkg_name)]\<rparr>)
   \<and> confirm_loop w ver pkgs s = confirm_loop w' ver pkgs s
   \<and> select_loop w ver pkgs s = select_loop w' ver pkgs s
   \<and> interactive_uninstall w classified s = interactive_uninstall w' classified s
   \<and> main_dialogue w orphans installed_packages s = main_dialogue w' orphans installed_packages s
   \<and> ((\<forall>tr c. (\<forall>p. c \<noteq> PipUninstall p) \<longrightarrow> exit_status w tr c = exit_status w' tr c)
        \<and> list_stdout w = list_stdout w' \<and> tree_stdout w = tree_stdout w' \<longrightarrow>
        cleaner_script w s = cleaner_script w' s \<and> main_script w s = main_script w' s)"
proof (intro conjI impI)
  show "uninstall_package w pkg_name s =
     (Inr (), s\<lparr>trace := trace s @ [Print (CHR 0x0A # ''Uninstalling '' @ pkg_name @ ''...''),
                                       Run (PipUninstall pkg_name)]\<rparr>)"
    by (rule uninstall_package_eq)
  show "confirm_loop w ver pkgs s = confirm_loop w' ver pkgs s"
    by (rule confirm_loop_world)
  show "select_loop w ver pkgs s = select_loop w' ver pkgs s"
    by (rule select_loop_world)
  show "interactive_uninstall w classified s = interactive_uninstall w' classified s"
    by (rule interactive_uninstall_world)
  show "main_dialogue w orphans installed_packages s = main_dialogue w' orphans installed_packages s"
    by (rule main_dialogue_world)
next
  assume a: "(\<forall>tr c. (\<forall>p. c \<noteq> PipUninstall p) \<longrightarrow> exit_status w tr c = exit_status w' tr c)
        \<and> list_stdout w = list_stdout w' \<and> tree_stdout w = tree_stdout w'"
  then show "cleaner_script w s = cleaner_script w' s"
    by (intro scripts_world) auto
next
  assume a: "(\<forall>tr c. (\<forall>p. c \<noteq> PipUninstall p) \<longrightarrow> exit_status w tr c = exit_status w' tr c)
        \<and> list_stdout w = list_stdout w' \<and> tree_stdout w = tree_stdout w'"
  then show "main_script w s = main_script w' s"
    by (intro scripts_world) auto
qed

theorem uninstall_fire_and_forget_witness:
  "exit_status world_uninstall_fails [] (PipUninstall ''requests'') \<noteq> 0
   \<and> exit_status world_example [] (PipUninstall ''requests'') = 0
   \<and> cleaner_script world_uninstall_fails \<lparr>stdin = [''y'', ''1'', ''y''], trace = []\<rparr>
       = cleaner_script world_example \<lparr>stdin = [''y'', ''1'', ''y''], trace = []\<rparr>
   \<and> main_script world_uninstall_fails \<lparr>stdin = [''y'', ''1'', ''y''], trace = []\<rparr>
       = main_script world_example \<lparr>stdin = [''y'', ''1'', ''y''], trace = []\<rparr>
   \<and> uninstalled (trace (snd (uninstall_package world_uninstall_fails ''requests''
        \<lparr>stdin = [], trace = []\<rparr>))) = [''requests'']"
proof -
  have h: "(\<forall>tr c. (\<forall>p. c \<noteq> PipUninstall p) \<longrightarrow>
              exit_status world_uninstall_fails tr c = exit_status world_example tr c)
        \<and> list_stdout world_uninstall_fails = list_stdout world_example
        \<and> tree_stdout world_uninstall_fails = tree_stdout world_example"
    by (auto simp: world_uninstall_fails_def world_example_def split: cmd.splits)
  have e: "exit_status world_uninstall_fails [] (PipUninstall ''requests'') \<noteq> 0
           \<and> exit_status world_example [] (PipUninstall ''requests'') = 0"
    by (simp add: world_uninstall_fails_def world_example_def)
  note t = uninstall_fire_and_forget [of world_uninstall_fails "''requests''" _ _ _ world_example]
  from t [of "\<lparr>stdin = [''y'', ''1'', ''y''], trace = []\<rparr>", THEN conjunct2, THEN conjunct2,
      THEN conjunct2, THEN conjunct2, THEN conjunct2, THEN mp, OF h]
    t [of "\<lparr>stdin = [], trace = []\<rparr>", THEN conjunct1] e
  show ?thesis
    by simp
qed


section \<open>What is passed to the uninstall\<close>

lemma installed_from_distinct:
  "installed_from pkgs acc = Inr I \<Longrightarrow> distinct (map fst acc) \<Longrightarrow> distinct (map fst I)"
  by (induction pkgs arbitrary: acc) (auto simp: distinct_update split: sum.splits)

lemma get_installed_packages_Inr:
  "get_installed_packages w s = (Inr I, s') \<Longrightarrow>
   \<exists>pkgs. list_stdout w = Some pkgs \<and> installed_from pkgs [] = Inr I"
  by (auto simp: get_installed_packages_def split: prod.splits sum.splits option.splits)

lemma get_dependency_tree_Inr:
  "get_dependency_tree w s = (Inr T, s') \<Longrightarrow> tree_stdout w = Some T"
  by (auto simp: get_dependency_tree_def split: prod.splits sum.splits option.splits)

lemma classify_packages_Inr:
  "classify_packages w I s = (Inr c, s') \<Longrightarrow>
   \<exists>T. tree_stdout w = Some T \<and> c = classified_of (required_packages T) I"
  by (auto simp: classify_packages_def split: prod.splits sum.splits dest: get_dependency_tree_Inr)

lemma main_get_installed_packages_Inr:
  "main_get_installed_packages w s = (Inr I, s') \<Longrightarrow>
   \<exists>pkgs. list_stdout w = Some pkgs \<and> main_installed_from pkgs [] = Inr I"
  by (auto simp: main_get_installed_packages_def split: prod.splits sum.splits option.splits)

lemma main_get_installed_packages_trace:
  "trace (snd (main_get_installed_packages w s)) = trace s @ [Run PipList]"
  by (simp add: main_get_installed_packages_def subprocess_run_def Let_def split: option.splits)

lemma find_orphans_Inr:
  "find_orphans w s = (Inr (orphans, I), s') \<Longrightarrow>
   \<exists>pkgs T. list_stdout w = Some pkgs \<and> main_installed_from pkgs [] = Inr I
      \<and> tree_stdout w = Some T \<and> orphans = orphans_of (required_packages T) I"
  by (auto simp: find_orphans_def split: prod.splits sum.splits
        dest!: get_dependency_tree_Inr main_get_installed_packages_Inr)

lemma find_orphans_uninstalled:
  "uninstalled (trace (snd (find_orphans w s))) = uninstalled (trace s)"
proof -
  obtain r1 s1 where m: "main_get_installed_packages w s = (r1, s1)"
    by (cases "main_get_installed_packages w s")
  have u1: "uninstalled (trace s1) = uninstalled (trace s)"
    using main_get_installed_packages_trace [of w s] m by (simp add: uninstalled_append)
  obtain r2 s2 where d: "get_dependency_tree w s1 = (r2, s2)"
    by (cases "get_dependency_tree w s1")
  have u2: "uninstalled (trace s2) = uninstalled (trace s)"
    using get_dependency_tree_trace [of w s1] d u1 by (simp add: uninstalled_append)
  show ?thesis
    using m d u1 u2 by (cases r1; cases r2) (simp_all add: find_orphans_def)
qed

lemma ensure_pipdeptree_uninstalled:
  "uninstalled (trace (snd (ensure_pipdeptree w s))) = uninstalled (trace s)"
  by (simp add: ensure_pipdeptree_def subprocess_run_def py_print_def Let_def uninstalled_append)

lemma display_packages_uninstalled:
  "uninstalled (trace (display_packages classified s)) = uninstalled (trace s)"
  unfolding display_packages_def
  by (subst fold_uninstalled) (auto simp: py_print_def uninstalled_append)

lemma orphaned_classified_of:
  assumes "p \<in> set (orphaned_of (classified_of req I))"
  shows "\<exists>data info. (p, data) \<in> set I \<and> \<not> is_system_of p data \<and> p \<notin> req
           \<and> map_of (classified_of req I) p = Some info
           \<and> used_by info = ''application'' \<and> \<not> system info"
proof -
  from assms obtain info where i: "(p, info) \<in> set (classified_of req I)"
      and u: "used_by info = ''application''"
    by (auto simp: orphaned_of_def)
  from i obtain data where d: "(p, data) \<in> set I" and e: "info = classify_entry req p data"
    using classified_of_entries by blast
  have "map_of (classified_of req I) p = Some info"
    using i classified_of_distinct_keys [of req I] by simp
  then show ?thesis
    using d e u by (auto simp: used_by_application system_classify_entry)
qed

lemma interactive_uninstall_uninstalled:
  "set (uninstalled (trace (snd (interactive_uninstall w classified s))))
     \<subseteq> set (uninstalled (trace s)) \<union> set (orphaned_of classified)"
proof -
  let ?Q = "\<lambda>e. \<forall>p. e = Run (PipUninstall p) \<longrightarrow>
                p \<in> set (uninstalled (trace s)) \<union> set (orphaned_of classified)"
  have "list_all ?Q (trace (snd (interactive_uninstall w classified s)))"
  proof (rule interactive_uninstall_inv)
    show "list_all ?Q (trace s)" by (rule uninstalled_inv_start)
  qed simp_all
  then show ?thesis
    by (simp only: uninstalled_subset)
qed

lemma main_dialogue_uninstalled:
  "set (uninstalled (trace (snd (main_dialogue w orphans installed_packages s))))
     \<subseteq> set (uninstalled (trace s)) \<union> set orphans"
proof -
  let ?Q = "\<lambda>e. \<forall>p. e = Run (PipUninstall p) \<longrightarrow> p \<in> set (uninstalled (trace s)) \<union> set orphans"
  have "list_all ?Q (trace (snd (main_dialogue w orphans installed_packages s)))"
  proof (rule main_dialogue_inv)
    show "list_all ?Q (trace s)" by (rule uninstalled_inv_start)
  qed simp_all
  then show ?thesis
    by (simp only: uninstalled_subset)
qed

lemma cleaner_script_uninstalled:
  assumes "p \<in> set (uninstalled (trace (snd (cleaner_script w s))))"
    and "p \<notin> set (uninstalled (trace s))"
  shows "\<exists>pkgs I T data. list_stdout w = Some pkgs \<and> installed_from pkgs [] = Inr I
           \<and> tree_stdout w = Some T \<and> map_of I p = Some data
           \<and> \<not> is_system_of p data \<and> p \<notin> required_packages T"
proof -
  obtain r1 s1 where e: "ensure_pipdeptree w s = (r1, s1)"
    by (cases "ensure_pipdeptree w s")
  have u1: "uninstalled (trace s1) = uninstalled (trace s)"
    using ensure_pipdeptree_uninstalled [of w s] e by simp
  let ?s1 = "py_print ''Scanning installed packages...'' s1"
  obtain r2 s2 where g: "get_installed_packages w ?s1 = (r2, s2)"
    by (cases "get_installed_packages w ?s1")
  have u2: "uninstalled (trace s2) = uninstalled (trace s)"
    using get_installed_packages_trace [of w ?s1] g u1
    by (simp add: uninstalled_append py_print_trace)
  show ?thesis
  proof (cases r1)
    case (Inl x)
    with e u1 assms show ?thesis by (simp add: cleaner_script_def)
  next
    case r1: (Inr u)
    show ?thesis
    proof (cases r2)
      case (Inl x)
      with e r1 g u2 assms show ?thesis by (simp add: cleaner_script_def)
    next
      case r2: (Inr I)
      obtain pkgs where l: "list_stdout w = Some pkgs" and i: "installed_from pkgs [] = Inr I"
        using get_installed_packages_Inr g r2 by blast
      have dI: "distinct (map fst I)"
        using installed_from_distinct [OF i] by simp
      obtain r3 s3 where c: "classify_packages w I s2 = (r3, s3)"
        by (cases "classify_packages w I s2")
      have u3: "uninstalled (trace s3) = uninstalled (trace s)"
        using classify_packages_trace [of w I s2] c u2 by (simp add: uninstalled_append)
      show ?thesis
      proof (cases r3)
        case (Inl x)
        with e r1 g r2 c u3 assms show ?thesis by (simp add: cleaner_script_def)
      next
        case r3: (Inr classified)
        obtain T where t: "tree_stdout w = Some T"
            and cl: "classified = classified_of (required_packages T) I"
          using classify_packages_Inr c r3 by blast
        have "cleaner_script w s = interactive_uninstall w classified (display_packages classified s3)"
          using e r1 g r2 c r3 by (simp add: cleaner_script_def)
        then have "p \<in> set (uninstalled (trace (display_packages classified s3)))
                      \<union> set (orphaned_of classified)"
          using assms(1) interactive_uninstall_uninstalled [of w classified "display_packages classified s3"]
          by auto
        then have "p \<in> set (orphaned_of classified)"
          using assms(2) u3 by (simp add: display_packages_uninstalled)
        then obtain data where "(p, data) \<in> set I" "\<not> is_system_of p data"
            "p \<notin> required_packages T"
          using orphaned_classified_of [of p "required_packages T" I] cl by blast
        then show ?thesis
          using l i t dI by auto
      qed
    qed
  qed
qed

lemma main_script_uninstalled:
  assumes "p \<in> set (uninstalled (trace (snd (main_script w s))))"
    and "p \<notin> set (uninstalled (trace s))"
  shows "\<exists>pkgs I T. list_stdout w = Some pkgs \<and> main_installed_from pkgs [] = Inr I
           \<and> tree_stdout w = Some T \<and> p \<in> fst ` set I \<and> p \<notin> required_packages T"
proof -
  let ?s0 = "py_print ''Scanning installed packages...'' s"
  obtain r1 s1 where f: "find_orphans w ?s0 = (r1, s1)"
    by (cases "find_orphans w ?s0")
  have u1: "uninstalled (trace s1) = uninstalled (trace s)"
    using find_orphans_uninstalled [of w ?s0] f by (simp add: py_print_trace uninstalled_append)
  show ?thesis
  proof (cases r1)
    case (Inl x)
    with f u1 assms show ?thesis by (simp add: main_script_def)
  next
    case (Inr oi)
    obtain orphans I where oi: "oi = (orphans, I)" by (cases oi)
    obtain pkgs T where l: "list_stdout w = Some pkgs" and i: "main_installed_from pkgs [] = Inr I"
        and t: "tree_stdout w = Some T" and o: "orphans = orphans_of (required_packages T) I"
      using find_orphans_Inr [of w ?s0 orphans I s1] f Inr oi by auto
    have "main_script w s = main_dialogue w orphans I s1"
      using f Inr oi by (simp add: main_script_def)
    then have "p \<in> set (uninstalled (trace s1)) \<union> set orphans"
      using assms(1) main_dialogue_uninstalled [of w orphans I s1] by auto
    then have "p \<in> set orphans"
      using assms(2) u1 by simp
    then have "p \<in> fst ` set I \<and> p \<notin> required_packages T"
      using o by (auto simp: orphans_of_def)
    then show ?thesis
      using l i t by auto
  qed
qed

lemma find_orphans_fresh:
  "find_orphans world_fresh s =
     (Inr ([''pipdeptree'', ''setuptools''],
           [(''packaging'', ''24.0''), (''pip'', ''23.0''), (''pipdeptree'', ''2.13''),
            (''setuptools'', ''65.5'')]),
      s\<lparr>trace := trace s @ [Run PipList, Run PipdeptreeJson]\<rparr>)"
  by (simp add: find_orphans_def main_get_installed_packages_def get_dependency_tree_def
        subprocess_run_def world_fresh_def subscript_def required_packages_def
        get_dependencies_def orphans_of_def Let_def)

lemma cleaner_script_example:
  "uninstalled (trace (snd (cleaner_script world_example \<lparr>stdin = [''y'', ''1'', ''y''], trace = []\<rparr>)))
     = [''requests'']"
proof -
  let ?I = "[(''requests'', \<lparr>version = ''2.31.0'', location = Some []\<rparr>)]"
  let ?c = "[(''requests'', \<lparr>c_version = ''2.31.0'', used_by = ''application'', system = False\<rparr>)]"
  have e: "ensure_pipdeptree world_example s = (Inr (), s\<lparr>trace := trace s @ [Run PipdeptreeVersion]\<rparr>)" for s
    by (rule ensure_pipdeptree_found) (simp add: world_example_def)
  have g: "get_installed_packages world_example s = (Inr ?I, s\<lparr>trace := trace s @ [Run PipListVerbose]\<rparr>)" for s
    by (simp add: get_installed_packages_def subprocess_run_def world_example_def
          pip_object_example_def subscript_def Let_def)
  have ns: "\<not> is_system_of ''requests'' \<lparr>version = ''2.31.0'', location = Some []\<rparr>"
    by (simp add: is_system_of_def system_dirs_def skip_packages_def)
  have c: "classify_packages world_example ?I s = (Inr ?c, s\<lparr>trace := trace s @ [Run PipdeptreeJson]\<rparr>)" for s
    by (simp add: classify_packages_def get_dependency_tree_def subprocess_run_def world_example_def
          required_packages_def classified_of_def classify_entry_def ns Let_def)
  have o: "orphaned_of ?c = [''requests'']"
    by (simp add: orphaned_of_def)
  have v: "classified_version ?c ''requests'' = Inr ''2.31.0''"
    by (simp add: classified_version_def subscript_def)
  have a: "lower (strip ''y'') = ''y''" "strip ''1'' = ''1''"
    by (simp_all add: lower_y strip_def isspace_simps)
  have i: "uninstalled (trace (snd (interactive_uninstall world_example ?c s)))
             = uninstalled (trace s) @ [''requests'']" if "stdin s = [''y'', ''1'', ''y'']" for s
    using that o v a
    by (simp add: interactive_uninstall_def uninstall_menu_def py_print_def py_input_def
          uninstall_package_eq uninstalled_append Let_def)
  have d: "stdin (display_packages ?c s) = stdin s" for s
    unfolding display_packages_def by (subst fold_stdin) (auto simp: py_print_def)
  show ?thesis
    by (simp add: cleaner_script_def e g c i d display_packages_uninstalled py_print_def
          uninstalled_append)
qed

text \<open>
  Claim C10, as the code has it. In both branches of either dialogue every name passed to
  \<open>uninstall_package\<close> is one of the candidates, the candidates are keys of the mapping
  the versions are looked up in, and the dialogue never ends with \<open>KeyError\<close>. In
  \<open>python_package_cleaner.py\<close> a candidate is an installed package that is neither
  required nor system, so no system or required package is passed to \<open>uninstall_package\<close>
  in any run of the script. In \<open>main.py\<close> a candidate is an installed package that is not
  required, so no required package is passed in any run of the script; \<open>main.py\<close> has no
  system category.
\<close>

theorem uninstall_only_candidates:
  "set (uninstalled (trace (snd (interactive_uninstall w classified s))))
      \<subseteq> set (uninstalled (trace s)) \<union> set (orphaned_of classified)
   \<and> set (orphaned_of classified) \<subseteq> fst ` set classified
   \<and> (fst (interactive_uninstall w classified s) = Inr ()
        \<or> fst (interactive_uninstall w classified s) = Inl EOFError)
   \<and> (\<forall>p \<in> set (orphaned_of (classified_of required installed_packages)).
          p \<notin> required \<and> p \<notin> skip_packages
          \<and> (\<exists>info. map_of (classified_of required installed_packages) p = Some info
                 \<and> used_by info = ''application'' \<and> \<not> system info))
   \<and> set (uninstalled (trace (snd (main_dialogue w (orphans_of required installed) installed s))))
        \<subseteq> set (uninstalled (trace s)) \<union> set (orphans_of required installed)
   \<and> set (orphans_of required installed) \<subseteq> fst ` set installed - required
   \<and> fst (main_dialogue w (orphans_of required installed) installed s)
        \<in> {Inr (), Inl EOFError, Inl SystemExit}
   \<and> (\<forall>p \<in> set (uninstalled (trace (snd (cleaner_script w \<lparr>stdin = ins, trace = []\<rparr>)))).
          \<exists>pkgs I T data. list_stdout w = Some pkgs \<and> installed_from pkgs [] = Inr I
            \<and> tree_stdout w = Some T \<and> map_of I p = Some data
            \<and> \<not> is_system_of p data \<and> p \<notin> required_packages T)
   \<and> (\<forall>p \<in> set (uninstalled (trace (snd (main_script w \<lparr>stdin = ins, trace = []\<rparr>)))).
          \<exists>pkgs I T. list_stdout w = Some pkgs \<and> main_installed_from pkgs [] = Inr I
            \<and> tree_stdout w = Some T \<and> p \<in> fst ` set I \<and> p \<notin> required_packages T)"
proof (intro conjI ballI)
  show "set (uninstalled (trace (snd (interactive_uninstall w classified s))))
      \<subseteq> set (uninstalled (trace s)) \<union> set (orphaned_of classified)"
    by (rule interactive_uninstall_uninstalled)
  show "set (orphaned_of classified) \<subseteq> fst ` set classified"
    by (auto simp: orphaned_of_def)
  show "fst (interactive_uninstall w classified s) = Inr ()
        \<or> fst (interactive_uninstall w classified s) = Inl EOFError"
    by (rule interactive_uninstall_result)
  show "set (uninstalled (trace (snd (main_dialogue w (orphans_of required installed) installed s))))
        \<subseteq> set (uninstalled (trace s)) \<union> set (orphans_of required installed)"
    by (rule main_dialogue_uninstalled)
  show "set (orphans_of required installed) \<subseteq> fst ` set installed - required"
    by (auto simp: orphans_of_def)
  show "fst (main_dialogue w (orphans_of required installed) installed s)
        \<in> {Inr (), Inl EOFError, Inl SystemExit}"
    by (rule main_dialogue_result) (rule orphans_of_version)
next
  fix p assume p: "p \<in> set (orphaned_of (classified_of required installed_packages))"
  from orphaned_classified_of [OF p]
  obtain data info where d: "\<not> is_system_of p data" "p \<notin> required"
      "map_of (classified_of required installed_packages) p = Some info"
      "used_by info = ''application''" "\<not> system info"
    by blast
  from d(1) have "p \<notin> skip_packages"
    by (simp add: is_system_of_def Let_def)
  with d show "p \<notin> required" "p \<notin> skip_packages"
    "\<exists>info. map_of (classified_of required installed_packages) p = Some info
        \<and> used_by info = ''application'' \<and> \<not> system info"
    by auto
next
  fix p assume "p \<in> set (uninstalled (trace (snd (cleaner_script w \<lparr>stdin = ins, trace = []\<rparr>))))"
  then show "\<exists>pkgs I T data. list_stdout w = Some pkgs \<and> installed_from pkgs [] = Inr I
            \<and> tree_stdout w = Some T \<and> map_of I p = Some data
            \<and> \<not> is_system_of p data \<and> p \<notin> required_packages T"
    by (rule cleaner_script_uninstalled) simp
next
  fix p assume "p \<in> set (uninstalled (trace (snd (main_script w \<lparr>stdin = ins, trace = []\<rparr>))))"
  then show "\<exists>pkgs I T. list_stdout w = Some pkgs \<and> main_installed_from pkgs [] = Inr I
            \<and> tree_stdout w = Some T \<and> p \<in> fst ` set I \<and> p \<notin> required_packages T"
    by (rule main_script_uninstalled) simp
qed

theorem uninstall_only_candidates_witness:
  "uninstalled (trace (snd (cleaner_script world_example \<lparr>stdin = [''y'', ''1'', ''y''], trace = []\<rparr>)))
     = [''requests'']
   \<and> (\<exists>pkgs I T data. list_stdout world_example = Some pkgs \<and> installed_from pkgs [] = Inr I
         \<and> tree_stdout world_example = Some T \<and> map_of I ''requests'' = Some data
         \<and> \<not> is_system_of ''requests'' data \<and> ''requests'' \<notin> required_packages T)"
proof -
  note t = uninstall_only_candidates [of world_example "[]" "\<lparr>stdin = [], trace = []\<rparr>" "{}" "[]" "[]"
      "[''y'', ''1'', ''y'']", THEN conjunct2, THEN conjunct2, THEN conjunct2, THEN conjunct2,
      THEN conjunct2, THEN conjunct2, THEN conjunct2, THEN conjunct1]
  have "''requests'' \<in> set (uninstalled (trace (snd (cleaner_script world_example
          \<lparr>stdin = [''y'', ''1'', ''y''], trace = []\<rparr>))))"
    by (simp add: cleaner_script_example)
  with t cleaner_script_example show ?thesis
    by blast
qed

text \<open>
  Claim C10 as stated does not hold of \<open>main.py\<close>: in a fresh environment the
  dependency-tree tool itself, a protected name that the classification marks as system, is
  a candidate, and it is uninstalled when the user confirms it.
\<close>

theorem main_uninstalls_protected_name:
  "uninstalled (trace (snd (main_script world_fresh \<lparr>stdin = [''y'', ''1'', ''y'', ''n''], trace = []\<rparr>)))
     = [''pipdeptree'']
   \<and> ''pipdeptree'' \<in> skip_packages
   \<and> used_by (classify_entry {''packaging'', ''pip''} ''pipdeptree''
                 \<lparr>version = ''2.13'', location = Some []\<rparr>) = ''system (do not remove)''"
proof -
  let ?I = "[(''packaging'', ''24.0''), (''pip'', ''23.0''), (''pipdeptree'', ''2.13''),
             (''setuptools'', ''65.5'')]"
  let ?s1 = "\<lparr>stdin = [''y'', ''1'', ''y'', ''n''],
              trace = [Print ''Scanning installed packages...'', Run PipList, Run PipdeptreeJson]\<rparr>"
  have m: "main_script world_fresh \<lparr>stdin = [''y'', ''1'', ''y'', ''n''], trace = []\<rparr>
             = main_dialogue world_fresh [''pipdeptree'', ''setuptools''] ?I ?s1"
    by (simp add: main_script_def find_orphans_fresh py_print_def)
  have v: "subscript ?I ''pipdeptree'' = Inr ''2.13''" "subscript ?I ''setuptools'' = Inr ''65.5''"
    by (simp_all add: subscript_def)
  have a: "lower (strip ''y'') = ''y''" "strip ''1'' = ''1''" "strip ''y'' = ''y''" "strip ''n'' = ''n''"
    by (simp_all add: lower_y strip_def isspace_simps)
  have "uninstalled (trace (snd (main_dialogue world_fresh [''pipdeptree'', ''setuptools''] ?I ?s1)))
          = [''pipdeptree'']"
    using main_bulk_two [of ?I "''pipdeptree''" "''2.13''" "''setuptools''" "''65.5''" ?s1
        "''y''" "''1''" "''y''" "''n''" "[]" world_fresh] v a
    by simp
  moreover have "''pipdeptree'' \<in> skip_packages"
    by (simp add: skip_packages_def)
  moreover have "used_by (classify_entry {''packaging'', ''pip''} ''pipdeptree''
                 \<lparr>version = ''2.13'', location = Some []\<rparr>) = ''system (do not remove)''"
    by (simp add: used_by_system is_system_of_def skip_packages_def)
  ultimately show ?thesis
    using m by simp
qed


end
